theory Spec2Isabelle
  imports Main
begin

section \<open>Strings of the platform\<close>

text \<open>
  A JavaScript string is modelled as a \<open>string\<close> whose characters are code units below 256.
  \<open>String.prototype.trim\<close> removes white space at both ends; of the white space of
  ECMAScript the code units below 256 are TAB, LF, VT, FF, CR, SPACE and NBSP.
\<close>

definition js_white_space :: "char \<Rightarrow> bool" where
  "js_white_space c = (of_char c \<in> {9, 10, 11, 12, 13, 32, 160 :: nat})"

definition js_trim :: "string \<Rightarrow> string" where
  "js_trim s = rev (dropWhile js_white_space (rev (dropWhile js_white_space s)))"

section \<open>The URL constructor of the platform\<close>

text \<open>
  \<open>isValidUrl\<close> calls \<open>new URL(string)\<close> with no base and reports whether it throws.
  The constructor belongs to the platform (the URL Standard's basic URL parser), so the
  handlers below take it as a parameter.  \<open>whatwg_parses\<close> is a model of when that parser
  succeeds, used where a concrete parser is needed: the input is stripped of leading and
  trailing C0 controls and spaces and of every tab and newline; it must begin with a scheme
  (a letter, then letters, digits, \<open>+\<close>, \<open>-\<close>, \<open>.\<close>, then \<open>:\<close>); after a special scheme
  (\<open>http\<close>, \<open>https\<close>, \<open>ws\<close>, \<open>wss\<close>, \<open>ftp\<close>) any run of slashes is skipped and a
  non-empty host must follow, with optional credentials and port; after \<open>file\<close> and after
  any other scheme a host is parsed only behind \<open>//\<close>, and everything else is a path,
  which always parses.  Of the host syntax only the forbidden code points, the bracket
  pairing and the port range are modelled (no IPv4 or IPv6 number parsing, no
  percent-decoding or IDNA mapping, no drive letters of \<open>file\<close> URLs); the properties
  below that hold for every URL constructor do not depend on it.
\<close>

definition c0_or_space :: "char \<Rightarrow> bool" where
  "c0_or_space c = (of_char c \<le> (32::nat))"

definition tab_or_newline :: "char \<Rightarrow> bool" where
  "tab_or_newline c = (of_char c \<in> {9, 10, 13 :: nat})"

definition ascii_alpha :: "char \<Rightarrow> bool" where
  "ascii_alpha c = (let n = of_char c :: nat in (65 \<le> n \<and> n \<le> 90) \<or> (97 \<le> n \<and> n \<le> 122))"

definition ascii_digit :: "char \<Rightarrow> bool" where
  "ascii_digit c = (let n = of_char c :: nat in 48 \<le> n \<and> n \<le> 57)"

definition ascii_lower :: "char \<Rightarrow> char" where
  "ascii_lower c = (let n = of_char c :: nat in if 65 \<le> n \<and> n \<le> 90 then char_of (n + 32) else c)"

definition scheme_char :: "char \<Rightarrow> bool" where
  "scheme_char c = (ascii_alpha c \<or> ascii_digit c \<or> c \<in> set ''+-.'')"

definition url_input :: "string \<Rightarrow> string" where
  "url_input s =
     filter (\<lambda>c. \<not> tab_or_newline c)
       (rev (dropWhile c0_or_space (rev (dropWhile c0_or_space s))))"

text \<open>The scheme (lower-cased) and what follows its colon, if the input begins with one.\<close>

fun split_scheme :: "string \<Rightarrow> (string \<times> string) option" where
  "split_scheme [] = None"
| "split_scheme (c # cs) =
     (if ascii_alpha c then
        (case dropWhile scheme_char cs of
           [] \<Rightarrow> None
         | d # rest \<Rightarrow>
             if d = CHR '':'' then Some (map ascii_lower (c # takeWhile scheme_char cs), rest)
             else None)
      else None)"

definition forbidden_host_char :: "char \<Rightarrow> bool" where
  "forbidden_host_char c =
     (of_char c \<in> {0, 9, 10, 13, 32 :: nat} \<or> c = CHR 0x5C \<or> c \<in> set ''#/:<>?@[]^|'')"

definition forbidden_domain_char :: "char \<Rightarrow> bool" where
  "forbidden_domain_char c =
     (forbidden_host_char c \<or> of_char c \<le> (31::nat) \<or> c = CHR ''%'' \<or> of_char c = (127::nat))"

definition digits_value :: "string \<Rightarrow> nat" where
  "digits_value ds = foldl (\<lambda>n c. 10 * n + (of_char c - 48)) 0 ds"

definition port_ok :: "string \<Rightarrow> bool" where
  "port_ok p = (list_all ascii_digit p \<and> digits_value p \<le> 65535)"

text \<open>The part of an authority behind its last \<open>@\<close>, and whether there was one.\<close>

definition after_credentials :: "string \<Rightarrow> bool \<times> string" where
  "after_credentials a =
     (if CHR ''@'' \<in> set a then (True, rev (takeWhile (\<lambda>c. c \<noteq> CHR ''@'') (rev a)))
      else (False, a))"

text \<open>Host and port of \<open>host[:port]\<close>; a colon inside brackets belongs to the host.\<close>

definition split_host_port :: "string \<Rightarrow> string \<times> string option" where
  "split_host_port hp =
     (case hp of
        [] \<Rightarrow> ([], None)
      | c # cs \<Rightarrow>
          if c = CHR ''['' then
            (let inside = takeWhile (\<lambda>d. d \<noteq> CHR '']'') hp;
                 behind = dropWhile (\<lambda>d. d \<noteq> CHR '']'') hp
             in case behind of
                  [] \<Rightarrow> (hp, None)
                | b # bs \<Rightarrow>
                    (case bs of
                       [] \<Rightarrow> (inside @ [b], None)
                     | e # p \<Rightarrow> if e = CHR '':'' then (inside @ [b], Some p)
                                else (inside @ b # takeWhile (\<lambda>d. d \<noteq> CHR '':'') bs,
                                      (case dropWhile (\<lambda>d. d \<noteq> CHR '':'') bs of
                                         [] \<Rightarrow> None | _ # q \<Rightarrow> Some q))))
          else
            (takeWhile (\<lambda>d. d \<noteq> CHR '':'') hp,
             (case dropWhile (\<lambda>d. d \<noteq> CHR '':'') hp of [] \<Rightarrow> None | _ # q \<Rightarrow> Some q)))"

definition host_ok :: "bool \<Rightarrow> string \<Rightarrow> bool" where
  "host_ok special h =
     (case h of
        [] \<Rightarrow> \<not> special
      | c # cs \<Rightarrow>
          if c = CHR ''['' then cs \<noteq> [] \<and> last cs = CHR '']'' \<and> butlast cs \<noteq> []
          else if special then \<not> list_ex forbidden_domain_char h
          else \<not> list_ex forbidden_host_char h)"

definition authority_ok :: "bool \<Rightarrow> string \<Rightarrow> bool" where
  "authority_ok special a =
     (let (at_seen, hp) = after_credentials a;
          (h, p) = split_host_port hp
      in \<not> (at_seen \<and> hp = []) \<and> \<not> (h = [] \<and> p \<noteq> None) \<and> host_ok special h \<and>
         (case p of None \<Rightarrow> True | Some ds \<Rightarrow> port_ok ds))"

definition is_slash :: "bool \<Rightarrow> char \<Rightarrow> bool" where
  "is_slash special c = (c = CHR ''/'' \<or> (special \<and> c = CHR 0x5C))"

definition authority_end :: "bool \<Rightarrow> char \<Rightarrow> bool" where
  "authority_end special c = (is_slash special c \<or> c = CHR ''?'' \<or> c = CHR ''#'')"

definition whatwg_parses :: "string \<Rightarrow> bool" where
  "whatwg_parses s =
     (case split_scheme (url_input s) of
        None \<Rightarrow> False
      | Some (scheme, rest) \<Rightarrow>
          if scheme \<in> set [''http'', ''https'', ''ws'', ''wss'', ''ftp''] then
            authority_ok True
              (takeWhile (\<lambda>c. \<not> authority_end True c) (dropWhile (is_slash True) rest))
          else
            (let special = (scheme = ''file'') in
             case rest of
               a # b # more \<Rightarrow>
                 if is_slash special a \<and> is_slash special b then
                   (if special then
                      (let h = takeWhile (\<lambda>c. \<not> authority_end True c) more
                       in h = [] \<or> host_ok True h)
                    else authority_ok False (takeWhile (\<lambda>c. \<not> authority_end False c) more))
                 else True
             | _ \<Rightarrow> True))"

section \<open>The data model\<close>

text \<open>
  A document of the model \<open>Url\<close> (the schema \<open>urlSchema\<close>).  Dates are milliseconds
  since the epoch.  \<open>clicks\<close> is a JavaScript \<open>Number\<close> holding a count: a natural number,
  incremented by \<open>js_add_one\<close> below.  A document is identified by its position in the
  collection (its \<open>_id\<close>); no handler deletes a document.
\<close>

record url_record =
  originalUrl :: string
  shortCode :: string
  clicks :: nat
  createdAt :: nat
  lastAccessed :: "nat option"

text \<open>
  \<open>new Url({originalUrl, shortCode})\<close> at time \<open>now\<close>: both strings pass the schema's
  \<open>trim\<close> setter, the other fields take their defaults.
\<close>

definition new_Url :: "string \<Rightarrow> string \<Rightarrow> nat \<Rightarrow> url_record" where
  "new_Url u c now =
     \<lparr>originalUrl = js_trim u, shortCode = js_trim c, clicks = 0, createdAt = now,
      lastAccessed = None\<rparr>"

text \<open>
  \<open>url.clicks += 1\<close> on a \<open>Number\<close> that holds the natural number \<open>n\<close>: binary64
  addition, exact below \<open>2 ^ 53\<close>.  From \<open>2 ^ 53\<close> to \<open>2 ^ 54\<close> a \<open>Number\<close> holds even
  numbers only and \<open>n + 1\<close> lies half way between two of them: it is rounded to the one
  with the even significand, \<open>n\<close> or \<open>n + 2\<close>.  From \<open>2 ^ 54\<close> on \<open>n + 1\<close> is rounded
  back to \<open>n\<close>.
\<close>

definition js_add_one :: "nat \<Rightarrow> nat" where
  "js_add_one n =
     (if n < 2 ^ 53 then n + 1
      else if n < 2 ^ 54 \<and> odd (n div 2) then n + 2
      else n)"

subsection \<open>The collection\<close>

text \<open>
  \<open>Url.findOne(filter)\<close> returns the first document that matches, with its position.
  The filters of the handlers are \<open>{ originalUrl }\<close> and \<open>{ shortCode }\<close>; Mongoose casts a
  filter value with the setters of the schema, so for these two paths, both declared with
  \<open>trim: true\<close>, \<open>findOne({ p: s })\<close> is \<open>findOne({ p: s.trim() })\<close>.
\<close>

fun first_index :: "('a \<Rightarrow> bool) \<Rightarrow> 'a list \<Rightarrow> nat option" where
  "first_index P [] = None"
| "first_index P (x # xs) = (if P x then Some 0 else map_option Suc (first_index P xs))"

definition findOne :: "(url_record \<Rightarrow> bool) \<Rightarrow> url_record list \<Rightarrow> (nat \<times> url_record) option" where
  "findOne cond db = map_option (\<lambda>i. (i, db ! i)) (first_index cond db)"

definition by_originalUrl :: "string \<Rightarrow> url_record \<Rightarrow> bool" where
  "by_originalUrl q d = (originalUrl d = js_trim q)"

definition by_shortCode :: "string \<Rightarrow> url_record \<Rightarrow> bool" where
  "by_shortCode q d = (shortCode d = js_trim q)"

text \<open>
  \<open>url.save()\<close> of a new document: validation rejects an empty \<open>required\<close> string, the
  unique index on \<open>shortCode\<close> rejects a code that a document already has; otherwise the
  document is appended.  \<open>url.save()\<close> of a document read from the collection writes it
  back at its position.
\<close>

datatype store_error = ValidationError | DuplicateKey

definition save_new :: "url_record \<Rightarrow> url_record list \<Rightarrow> store_error + url_record list" where
  "save_new d db =
     (if originalUrl d = [] \<or> shortCode d = [] then Inl ValidationError
      else if shortCode d \<in> set (map shortCode db) then Inl DuplicateKey
      else Inr (db @ [d]))"

definition save_existing :: "nat \<Rightarrow> url_record \<Rightarrow> url_record list \<Rightarrow> url_record list" where
  "save_existing i d db = db[i := d]"

text \<open>
  A total reaches the handler as a \<open>Number\<close>.  \<open>to_number n\<close> is the \<open>Number\<close> nearest to
  the natural number \<open>n\<close>: \<open>n\<close> itself up to \<open>2 ^ 53\<close>; above, the multiple of the spacing
  \<open>ulp_of n\<close> of the \<open>Number\<close>s around \<open>n\<close> that is nearest, and of two equally near
  the one with the even significand.  (Totals beyond the largest finite \<open>Number\<close> are
  not modelled.)
\<close>

function ulp_of :: "nat \<Rightarrow> nat" where
  "ulp_of n = (if n < 2 ^ 53 then 1 else 2 * ulp_of (n div 2))"
  by pat_completeness auto
termination
  by (relation "measure (\<lambda>n. n)") auto

declare ulp_of.simps [simp del]

definition to_number :: "nat \<Rightarrow> nat" where
  "to_number n =
     (let ulp = ulp_of n; q = n div ulp; r = n mod ulp
      in if 2 * r < ulp then q * ulp
         else if ulp < 2 * r then (q + 1) * ulp
         else if even q then q * ulp
         else (q + 1) * ulp)"

text \<open>\<open>Url.countDocuments({})\<close> and the \<open>$group\<close> stage summing \<open>clicks\<close> over all documents:
  one group when there is a document, none otherwise.  The database adds without loss,
  and the total is read as a \<open>Number\<close>.\<close>

definition countDocuments :: "url_record list \<Rightarrow> nat" where
  "countDocuments db = length db"

definition aggregate_sum_clicks :: "url_record list \<Rightarrow> nat list" where
  "aggregate_sum_clicks db = (if db = [] then [] else [to_number (sum_list (map clicks db))])"

section \<open>The handlers\<close>

text \<open>
  What the handlers take from outside: the URL constructor (whether \<open>new URL(s)\<close> returns),
  the code generator (\<open>shortid_generate env k\<close> is what the call number \<open>k\<close> of
  \<open>shortid.generate()\<close> returns) and the configured \<open>BASE_URL\<close>.  The state is the
  collection and the number of calls made to the generator so far.  Every handler takes
  the time of the request.  Failures of the connection to the database are not modelled.
\<close>

record env =
  URL_parses :: "string \<Rightarrow> bool"
  shortid_generate :: "nat \<Rightarrow> string"
  BASE_URL :: string

record state =
  urls :: "url_record list"
  generated :: nat

datatype body =
    Error string
  | Shortened string string string
  | Listing "(url_record \<times> string) list"
  | Stats nat nat

datatype response = Json nat body | Redirect string

definition isValidUrl :: "env \<Rightarrow> string \<Rightarrow> bool" where
  "isValidUrl env string = (if URL_parses env string then True else False)"

definition shortUrl :: "env \<Rightarrow> string \<Rightarrow> string" where
  "shortUrl env code = BASE_URL env @ ''/'' @ code"

text \<open>
  The loop \<open>while (!isUnique)\<close>: from call number \<open>k\<close> of the generator on, the first
  candidate that no document has as its \<open>shortCode\<close>, with the number of the next call.
  \<open>None\<close> is the loop that does not end.
\<close>

partial_function (option) unique_code ::
  "env \<Rightarrow> url_record list \<Rightarrow> nat \<Rightarrow> (string \<times> nat) option" where
  "unique_code env db k =
     (if findOne (by_shortCode (shortid_generate env k)) db = None
      then Some (shortid_generate env k, Suc k)
      else unique_code env db (Suc k))"

declare unique_code.simps [code]

text \<open>\<open>POST /api/shorten\<close> with body field \<open>originalUrl\<close> (\<open>None\<close> when it is missing).\<close>

definition shorten :: "env \<Rightarrow> nat \<Rightarrow> string option \<Rightarrow> state \<Rightarrow> (response \<times> state) option" where
  "shorten env now input st =
     (case input of
        None \<Rightarrow> Some (Json 400 (Error ''URL is required''), st)
      | Some u \<Rightarrow>
          if u = [] then Some (Json 400 (Error ''URL is required''), st)
          else if \<not> isValidUrl env u then Some (Json 400 (Error ''Invalid URL format''), st)
          else
            (case findOne (by_originalUrl u) (urls st) of
               Some (i, url) \<Rightarrow>
                 Some (Json 200 (Shortened (originalUrl url) (shortUrl env (shortCode url))
                                   (shortCode url)), st)
             | None \<Rightarrow>
                 (case unique_code env (urls st) (generated st) of
                    None \<Rightarrow> None
                  | Some (code, k) \<Rightarrow>
                      (let url = new_Url u code now in
                       case save_new url (urls st) of
                         Inl err \<Rightarrow>
                           Some (Json 500 (Error ''Server error''), st\<lparr>generated := k\<rparr>)
                       | Inr db \<Rightarrow>
                           Some (Json 201 (Shortened (originalUrl url)
                                             (shortUrl env (shortCode url)) (shortCode url)),
                                 \<lparr>urls = db, generated = k\<rparr>)))))"

text \<open>\<open>GET /:shortCode\<close>.\<close>

definition resolve :: "nat \<Rightarrow> string \<Rightarrow> state \<Rightarrow> response \<times> state" where
  "resolve now code st =
     (case findOne (by_shortCode code) (urls st) of
        None \<Rightarrow> (Json 404 (Error ''Short URL not found''), st)
      | Some (i, url) \<Rightarrow>
          (let url' = url\<lparr>clicks := js_add_one (clicks url), lastAccessed := Some now\<rparr>
           in (Redirect (originalUrl url'), st\<lparr>urls := save_existing i url' (urls st)\<rparr>)))"

text \<open>\<open>GET /api/admin/urls\<close>: the documents by \<open>createdAt\<close>, newest first, each with its
  short URL.\<close>

definition list_urls :: "env \<Rightarrow> state \<Rightarrow> response \<times> state" where
  "list_urls env st =
     (Json 200 (Listing (map (\<lambda>url. (url, shortUrl env (shortCode url)))
                           (rev (sort_key createdAt (urls st))))), st)"

text \<open>\<open>GET /api/admin/stats\<close>; \<open>totalClicks[0]?.total || 0\<close> is \<open>0\<close> when there is no group
  and when the total is \<open>0\<close>.\<close>

definition stats :: "state \<Rightarrow> response \<times> state" where
  "stats st =
     (let totalUrls = countDocuments (urls st);
          totalClicks = aggregate_sum_clicks (urls st)
      in (Json 200 (Stats totalUrls
                      (case totalClicks of [] \<Rightarrow> 0 | t # _ \<Rightarrow> if t = 0 then 0 else t)),
          st))"

text \<open>The error kinds of the specification, as the responses the handlers give.\<close>

definition MissingUrl :: response where
  "MissingUrl = Json 400 (Error ''URL is required'')"

definition InvalidUrl :: response where
  "InvalidUrl = Json 400 (Error ''Invalid URL format'')"

definition NotFound :: response where
  "NotFound = Json 404 (Error ''Short URL not found'')"

definition ServerError :: response where
  "ServerError = Json 500 (Error ''Server error'')"

section \<open>Notions used by the properties\<close>

text \<open>
  Candidate number \<open>k\<close> of the generator is unused in the collection; \<open>m\<close> is the first
  call from \<open>k\<close> on whose candidate is unused.
\<close>

definition fresh_at :: "env \<Rightarrow> url_record list \<Rightarrow> nat \<Rightarrow> bool" where
  "fresh_at env db k = (\<forall>d\<in>set db. shortCode d \<noteq> js_trim (shortid_generate env k))"

definition first_fresh :: "env \<Rightarrow> url_record list \<Rightarrow> nat \<Rightarrow> nat \<Rightarrow> bool" where
  "first_fresh env db k m = (k \<le> m \<and> fresh_at env db m \<and> (\<forall>j\<in>{k..<m}. \<not> fresh_at env db j))"

text \<open>
  The invariant of the collection: no two documents share a \<open>shortCode\<close> or an
  \<open>originalUrl\<close>, and both strings are stored trimmed.
\<close>

definition store_ok :: "url_record list \<Rightarrow> bool" where
  "store_ok db =
     (distinct (map shortCode db) \<and> distinct (map originalUrl db) \<and>
      (\<forall>d\<in>set db. js_trim (shortCode d) = shortCode d \<and> js_trim (originalUrl d) = originalUrl d))"

text \<open>The \<open>originalUrl\<close> and \<open>shortCode\<close> of a successful answer of \<open>shorten\<close>.\<close>

fun shortened :: "response \<Rightarrow> (string \<times> string) option" where
  "shortened (Json status (Shortened orig short code)) = Some (orig, code)"
| "shortened _ = None"

text \<open>
  Requests, one handler each; a run handles timed requests one after the other and has
  no result when a handler never answers.  A state is reachable when requests lead to it
  from the empty collection.
\<close>

datatype request = Shorten "string option" | Resolve string | ListUrls | GetStats

fun handle :: "env \<Rightarrow> nat \<Rightarrow> request \<Rightarrow> state \<Rightarrow> (response \<times> state) option" where
  "handle env now (Shorten input) st = shorten env now input st"
| "handle env now (Resolve code) st = Some (resolve now code st)"
| "handle env now ListUrls st = Some (list_urls env st)"
| "handle env now GetStats st = Some (stats st)"

fun run :: "env \<Rightarrow> (nat \<times> request) list \<Rightarrow> state \<Rightarrow> (response list \<times> state) option" where
  "run env [] st = Some ([], st)"
| "run env ((now, rq) # rest) st =
     (case handle env now rq st of
        None \<Rightarrow> None
      | Some (rsp, st') \<Rightarrow>
          (case run env rest st' of
             None \<Rightarrow> None
           | Some (rsps, st'') \<Rightarrow> Some (rsp # rsps, st'')))"

inductive reachable :: "env \<Rightarrow> state \<Rightarrow> bool" for env :: env where
  initial: "reachable env \<lparr>urls = [], generated = 0\<rparr>"
| step: "reachable env st \<Longrightarrow> handle env now rq st = Some (rsp, st') \<Longrightarrow> reachable env st'"

text \<open>\<open>resolve\<close> called once for each of the given times, in order, on the same code.\<close>

fun resolve_times :: "nat list \<Rightarrow> string \<Rightarrow> state \<Rightarrow> response list \<times> state" where
  "resolve_times [] code st = ([], st)"
| "resolve_times (now # later) code st =
     (let (rsp, st') = resolve now code st;
          (rsps, st'') = resolve_times later code st'
      in (rsp # rsps, st''))"

text \<open>The pairs of \<open>originalUrl\<close> and \<open>shortCode\<close> that the collection holds.\<close>

definition links :: "url_record list \<Rightarrow> (string \<times> string) set" where
  "links db = set (map (\<lambda>d. (originalUrl d, shortCode d)) db)"

subsection \<open>Example environments and states\<close>

text \<open>
  \<open>local_env\<close> has the default \<open>BASE_URL\<close> and a generator whose candidates are all
  different; the generator of \<open>stuck_env\<close> returns the same candidate for ever, that of
  \<open>slow_env\<close> returns it eleven times before a new one.
\<close>

definition local_env :: env where
  "local_env =
     \<lparr>URL_parses = whatwg_parses,
      shortid_generate = (\<lambda>k. ''code'' @ replicate k (CHR ''0'')),
      BASE_URL = ''http://localhost:3000''\<rparr>"

definition stuck_env :: env where
  "stuck_env = local_env\<lparr>shortid_generate := (\<lambda>k. ''taken'')\<rparr>"

definition slow_env :: env where
  "slow_env = local_env\<lparr>shortid_generate := (\<lambda>k. if k < 11 then ''taken'' else ''free'')\<rparr>"

definition empty_state :: state where
  "empty_state = \<lparr>urls = [], generated = 0\<rparr>"

definition taken_state :: state where
  "taken_state =
     \<lparr>urls = [\<lparr>originalUrl = ''http://example.org'', shortCode = ''taken'', clicks = 0,
               createdAt = 1, lastAccessed = None\<rparr>],
      generated = 0\<rparr>"

definition three_urls :: state where
  "three_urls =
     \<lparr>urls = [\<lparr>originalUrl = ''http://example.com/a'', shortCode = ''code'', clicks = 3,
               createdAt = 1, lastAccessed = Some 7\<rparr>,
              \<lparr>originalUrl = ''http://example.com/b'', shortCode = ''code0'', clicks = 0,
               createdAt = 2, lastAccessed = None\<rparr>,
              \<lparr>originalUrl = ''http://example.com/c'', shortCode = ''code00'', clicks = 5,
               createdAt = 3, lastAccessed = Some 9\<rparr>],
      generated = 3\<rparr>"

definition saturated_state :: state where
  "saturated_state =
     \<lparr>urls = [\<lparr>originalUrl = ''http://example.com'', shortCode = ''code'',
               clicks = 9007199254740992, createdAt = 1, lastAccessed = Some 2\<rparr>],
      generated = 1\<rparr>"


section \<open>Lemmas\<close>

subsection \<open>Looking a document up\<close>

lemma first_index_None: "first_index P xs = None \<longleftrightarrow> (\<forall>x\<in>set xs. \<not> P x)"
  by (induction xs) auto

lemma first_index_Some:
  "first_index P xs = Some i \<Longrightarrow> i < length xs \<and> P (xs ! i) \<and> (\<forall>j<i. \<not> P (xs ! j))"
proof (induction xs arbitrary: i)
  case Nil
  then show ?case by simp
next
  case (Cons x xs)
  show ?case
  proof (cases "P x")
    case True
    with Cons.prems show ?thesis by simp
  next
    case False
    with Cons.prems obtain k where k: "first_index P xs = Some k" "i = Suc k"
      by auto
    from Cons.IH [OF k(1)] False k(2) show ?thesis
      by (auto simp: nth_Cons split: nat.splits)
  qed
qed

lemma findOne_None: "findOne P db = None \<longleftrightarrow> (\<forall>d\<in>set db. \<not> P d)"
  by (simp add: findOne_def first_index_None)

lemma findOne_Some:
  "findOne P db = Some (i, d) \<Longrightarrow> i < length db \<and> d = db ! i \<and> P d \<and> d \<in> set db"
  by (auto simp: findOne_def dest!: first_index_Some)

lemma first_index_unique:
  assumes "distinct (map f xs)" "i < length xs" "P = (\<lambda>x. f x = f (xs ! i))"
  shows "first_index P xs = Some i"
proof -
  have "P (xs ! i)" using assms(3) by simp
  then have "\<not> (\<forall>x\<in>set xs. \<not> P x)" using assms(2) by auto
  then obtain k where k: "first_index P xs = Some k"
    using first_index_None [of P xs] by fastforce
  from first_index_Some [OF k] have "k < length xs" "f (xs ! k) = f (xs ! i)"
    using assms(3) by auto
  with assms(1,2) have "k = i"
    by (metis distinct_conv_nth length_map nth_map)
  with k show ?thesis by simp
qed

subsection \<open>Trimming twice\<close>

lemma dropWhile_hd_stable: "xs = [] \<or> \<not> P (hd xs) \<Longrightarrow> dropWhile P xs = xs"
  by (cases xs) auto

lemma js_trim_idem: "js_trim (js_trim s) = js_trim s"
proof -
  define P where "P = js_white_space"
  define X where "X = dropWhile P s"
  define Y where "Y = rev (dropWhile P (rev X))"
  have X: "X = [] \<or> \<not> P (hd X)"
    unfolding X_def by (metis hd_dropWhile)
  have split: "X = Y @ rev (takeWhile P (rev X))"
    unfolding Y_def by (metis rev_append rev_rev_ident takeWhile_dropWhile_id)
  have "Y = [] \<or> \<not> P (hd Y)"
  proof (cases "Y = []")
    case False
    with split have "hd Y = hd X" "X \<noteq> []" by (metis hd_append2, auto)
    with X show ?thesis by simp
  qed simp
  then have 1: "dropWhile P Y = Y" by (rule dropWhile_hd_stable)
  have 2: "dropWhile P (rev Y) = rev Y"
    unfolding Y_def by simp
  have "js_trim s = Y" by (simp add: js_trim_def Y_def X_def P_def)
  moreover have "js_trim Y = Y" using 1 2 by (simp add: js_trim_def P_def [symmetric])
  ultimately show ?thesis by simp
qed

subsection \<open>The loop of the generator\<close>

lemma fresh_at_findOne:
  "fresh_at env db k \<longleftrightarrow> findOne (by_shortCode (shortid_generate env k)) db = None"
  by (simp add: fresh_at_def findOne_None by_shortCode_def)

lemma unique_code_step:
  "unique_code env db k =
     (if fresh_at env db k then Some (shortid_generate env k, Suc k)
      else unique_code env db (Suc k))"
  by (subst unique_code.simps) (simp add: fresh_at_findOne [symmetric])

lemma first_fresh_now: "fresh_at env db k \<Longrightarrow> first_fresh env db k k"
  by (simp add: first_fresh_def)

lemma first_fresh_later:
  assumes "\<not> fresh_at env db k" "first_fresh env db (Suc k) m"
  shows "first_fresh env db k m"
proof -
  have "\<not> fresh_at env db j" if "j \<in> {k..<m}" for j
  proof (cases "j = k")
    case True
    with assms(1) show ?thesis by simp
  next
    case False
    with that have "j \<in> {Suc k..<m}" by simp
    with assms(2) show ?thesis by (simp add: first_fresh_def)
  qed
  with assms(2) show ?thesis by (simp add: first_fresh_def)
qed

lemma unique_code_first:
  "first_fresh env db k m \<Longrightarrow> unique_code env db k = Some (shortid_generate env m, Suc m)"
proof (induction "m - k" arbitrary: k)
  case 0
  then have "k = m" "fresh_at env db m" by (simp_all add: first_fresh_def)
  then show ?case by (subst unique_code_step) simp
next
  case (Suc n)
  then have k: "k < m" "\<not> fresh_at env db k" by (simp_all add: first_fresh_def)
  with Suc.prems have "first_fresh env db (Suc k) m" by (simp add: first_fresh_def)
  moreover have "n = m - Suc k" using Suc.hyps(2) by simp
  ultimately have "unique_code env db (Suc k) = Some (shortid_generate env m, Suc m)"
    by (rule Suc.hyps(1) [rotated])
  with k(2) show ?case by (subst unique_code_step) simp
qed

lemma unique_code_Some:
  assumes "unique_code env db k = Some r"
  shows "\<exists>m. first_fresh env db k m \<and> r = (shortid_generate env m, Suc m)"
proof (rule unique_code.raw_induct
    [where P = "\<lambda>env db k r. \<exists>m. first_fresh env db k m \<and> r = (shortid_generate env m, Suc m)",
      OF _ assms])
  fix loop :: "env \<Rightarrow> url_record list \<Rightarrow> nat \<Rightarrow> (string \<times> nat) option"
  fix env db k r
  assume IH: "\<And>env db k r. loop env db k = Some r \<Longrightarrow>
    \<exists>m. first_fresh env db k m \<and> r = (shortid_generate env m, Suc m)"
  assume body: "(if findOne (by_shortCode (shortid_generate env k)) db = None
      then Some (shortid_generate env k, Suc k) else loop env db (Suc k)) = Some r"
  show "\<exists>m. first_fresh env db k m \<and> r = (shortid_generate env m, Suc m)"
  proof (cases "fresh_at env db k")
    case True
    with body have "r = (shortid_generate env k, Suc k)"
      by (simp add: fresh_at_findOne [symmetric])
    with True show ?thesis using first_fresh_now by blast
  next
    case False
    with body have "loop env db (Suc k) = Some r"
      by (simp add: fresh_at_findOne [symmetric])
    from IH [OF this] obtain m where "first_fresh env db (Suc k) m"
      "r = (shortid_generate env m, Suc m)" by (elim exE conjE)
    with False show ?thesis using first_fresh_later by blast
  qed
qed

lemma unique_code_None:
  "unique_code env db k = None \<longleftrightarrow> (\<forall>j\<ge>k. \<not> fresh_at env db j)"
proof
  assume n: "unique_code env db k = None"
  show "\<forall>j\<ge>k. \<not> fresh_at env db j"
  proof (rule ccontr)
    assume "\<not> (\<forall>j\<ge>k. \<not> fresh_at env db j)"
    then have ex: "\<exists>j. k \<le> j \<and> fresh_at env db j" by blast
    define m where "m = (LEAST j. k \<le> j \<and> fresh_at env db j)"
    have "k \<le> m \<and> fresh_at env db m" unfolding m_def using ex by (rule LeastI_ex)
    moreover have "\<forall>j\<in>{k..<m}. \<not> fresh_at env db j"
      unfolding m_def using not_less_Least by fastforce
    ultimately have "first_fresh env db k m" by (simp add: first_fresh_def)
    from unique_code_first [OF this] n show False by simp
  qed
next
  assume a: "\<forall>j\<ge>k. \<not> fresh_at env db j"
  show "unique_code env db k = None"
  proof (cases "unique_code env db k")
    case (Some r)
    from unique_code_Some [OF this] a show ?thesis by (auto simp: first_fresh_def)
  qed simp
qed

subsection \<open>Writing a document back\<close>

lemma map_list_update_same:
  "i < length xs \<Longrightarrow> f y = f (xs ! i) \<Longrightarrow> map f (xs[i := y]) = map f xs"
  by (simp add: map_update list_update_same_conv)

lemma first_index_update:
  "first_index P xs = Some i \<Longrightarrow> P y \<Longrightarrow> first_index P (xs[i := y]) = Some i"
proof (induction xs arbitrary: i)
  case Nil
  then show ?case by simp
next
  case (Cons x xs)
  then show ?case by (cases "P x") (auto split: nat.splits)
qed

lemma findOne_distinct:
  assumes "distinct (map f db)" "d \<in> set db" "\<And>x. P x \<longleftrightarrow> f x = f d"
  shows "\<exists>i. findOne P db = Some (i, d)"
proof -
  from assms(2) obtain i where i: "i < length db" "db ! i = d"
    by (auto simp: in_set_conv_nth)
  have "P = (\<lambda>x. f x = f (db ! i))" using assms(3) i by auto
  from first_index_unique [OF assms(1) i(1) this] i show ?thesis
    by (simp add: findOne_def)
qed

subsection \<open>The answers of shorten\<close>

lemma shorten_existing:
  assumes "u \<noteq> []" "isValidUrl env u" "findOne (by_originalUrl u) (urls st) = Some (i, d)"
  shows "shorten env now (Some u) st =
    Some (Json 200 (Shortened (originalUrl d) (shortUrl env (shortCode d)) (shortCode d)), st)"
  using assms by (simp add: shorten_def)

lemma shorten_new:
  assumes "u \<noteq> []" "isValidUrl env u" "findOne (by_originalUrl u) (urls st) = None"
    "first_fresh env (urls st) (generated st) m"
  shows "shorten env now (Some u) st =
    (let url = new_Url u (shortid_generate env m) now in
     case save_new url (urls st) of
       Inl err \<Rightarrow> Some (Json 500 (Error ''Server error''), st\<lparr>generated := Suc m\<rparr>)
     | Inr db \<Rightarrow> Some (Json 201 (Shortened (originalUrl url) (shortUrl env (shortCode url))
                                    (shortCode url)),
                       \<lparr>urls = db, generated = Suc m\<rparr>))"
  using assms unique_code_first [OF assms(4)] by (simp add: shorten_def)

lemma save_new_fresh:
  assumes "fresh_at env db m"
  shows "save_new (new_Url u (shortid_generate env m) now) db =
    (if js_trim u = [] \<or> js_trim (shortid_generate env m) = [] then Inl ValidationError
     else Inr (db @ [new_Url u (shortid_generate env m) now]))"
  using assms by (auto simp: save_new_def new_Url_def fresh_at_def)

lemma shorten_success:
  assumes "shorten env now input st = Some (rsp, st')" "shortened rsp = Some (orig, code)"
  shows "\<exists>u. input = Some u \<and> u \<noteq> [] \<and> isValidUrl env u \<and> orig = js_trim u \<and>
    ((\<exists>i d. findOne (by_originalUrl u) (urls st) = Some (i, d) \<and> code = shortCode d \<and>
        rsp = Json 200 (Shortened orig (shortUrl env code) code) \<and> st' = st) \<or>
     (\<exists>m. findOne (by_originalUrl u) (urls st) = None \<and>
        first_fresh env (urls st) (generated st) m \<and> code = js_trim (shortid_generate env m) \<and>
        rsp = Json 201 (Shortened orig (shortUrl env code) code) \<and>
        st' = \<lparr>urls = urls st @ [new_Url u (shortid_generate env m) now], generated = Suc m\<rparr>))"
proof -
  from assms obtain u where u: "input = Some u" "u \<noteq> []" "isValidUrl env u"
    by (cases input) (auto simp: shorten_def split: if_splits)
  show ?thesis
  proof (cases "findOne (by_originalUrl u) (urls st)")
    case (Some a)
    obtain i d where a: "a = (i, d)" by (cases a)
    from findOne_Some [OF Some [unfolded a]] have "by_originalUrl u d" by blast
    then have "originalUrl d = js_trim u"
      by (simp add: by_originalUrl_def)
    with shorten_existing [OF u(2,3) Some [unfolded a], of now] assms u(1) Some a u(2,3) show ?thesis
      by auto
  next
    case None
    with assms(1) u obtain r where r: "unique_code env (urls st) (generated st) = Some r"
      by (cases "unique_code env (urls st) (generated st)") (auto simp: shorten_def)
    from unique_code_Some [OF r] obtain m where m: "first_fresh env (urls st) (generated st) m"
      by blast
    then have fr: "fresh_at env (urls st) m" by (simp add: first_fresh_def)
    from shorten_new [OF u(2,3) None m, of now] assms u(1) save_new_fresh [OF fr, of u now]
    have "js_trim u \<noteq> [] \<and> js_trim (shortid_generate env m) \<noteq> [] \<and>
      rsp = Json 201 (Shortened (js_trim u) (shortUrl env (js_trim (shortid_generate env m)))
                       (js_trim (shortid_generate env m))) \<and>
      st' = \<lparr>urls = urls st @ [new_Url u (shortid_generate env m) now], generated = Suc m\<rparr>"
      by (auto simp: Let_def new_Url_def split: if_splits)
    with assms(2) u None m show ?thesis by auto
  qed
qed

lemma shorten_urls:
  assumes "shorten env now input st = Some (rsp, st')"
  shows "urls st' = urls st \<or>
    (\<exists>u m. input = Some u \<and> findOne (by_originalUrl u) (urls st) = None \<and>
       fresh_at env (urls st) m \<and> urls st' = urls st @ [new_Url u (shortid_generate env m) now])"
proof (cases "shortened rsp")
  case None
  show ?thesis
  proof (cases input)
    case n: None
    with assms show ?thesis by (simp add: shorten_def)
  next
    case (Some u)
    show ?thesis
    proof (cases "u \<noteq> [] \<and> isValidUrl env u \<and> findOne (by_originalUrl u) (urls st) = None")
      case False
      with assms Some show ?thesis by (auto simp: shorten_def split: if_splits option.splits)
    next
      case True
      with assms Some obtain r where r: "unique_code env (urls st) (generated st) = Some r"
        by (cases "unique_code env (urls st) (generated st)") (auto simp: shorten_def)
      from unique_code_Some [OF r] obtain m where m: "first_fresh env (urls st) (generated st) m"
        by blast
      then have fr: "fresh_at env (urls st) m" by (simp add: first_fresh_def)
      from True have t: "u \<noteq> []" "isValidUrl env u" "findOne (by_originalUrl u) (urls st) = None"
        by simp_all
      from shorten_new [OF t m, of now] assms Some save_new_fresh [OF fr, of u now] None
      show ?thesis by (auto simp: Let_def split: if_splits)
    qed
  qed
next
  case (Some a)
  obtain orig code where "a = (orig, code)" by (cases a)
  with Some shorten_success [OF assms, of orig code] show ?thesis
    by (auto simp: first_fresh_def)
qed

subsection \<open>The answers of resolve\<close>

lemma resolve_missing:
  "findOne (by_shortCode code) (urls st) = None \<Longrightarrow>
   resolve now code st = (Json 404 (Error ''Short URL not found''), st)"
  by (simp add: resolve_def)

lemma resolve_found:
  "findOne (by_shortCode code) (urls st) = Some (i, d) \<Longrightarrow>
   resolve now code st =
     (Redirect (originalUrl d),
      st\<lparr>urls := (urls st)[i := d\<lparr>clicks := js_add_one (clicks d), lastAccessed := Some now\<rparr>]\<rparr>)"
  by (simp add: resolve_def save_existing_def)

lemma resolve_urls:
  "urls (snd (resolve now code st)) = urls st \<or>
   (\<exists>i d. i < length (urls st) \<and> d = urls st ! i \<and>
      urls (snd (resolve now code st)) =
        (urls st)[i := d\<lparr>clicks := js_add_one (clicks d), lastAccessed := Some now\<rparr>])"
proof (cases "findOne (by_shortCode code) (urls st)")
  case None
  then show ?thesis by (simp add: resolve_missing)
next
  case (Some a)
  obtain i d where a: "a = (i, d)" by (cases a)
  from findOne_Some [OF Some [unfolded a]] resolve_found [OF Some [unfolded a], of now]
  show ?thesis by auto
qed

subsection \<open>The invariant and the stored pairs\<close>

lemma store_ok_touch:
  assumes "store_ok db" "i < length db" "shortCode d = shortCode (db ! i)"
    "originalUrl d = originalUrl (db ! i)"
  shows "store_ok (db[i := d])"
proof -
  have "db ! i \<in> set db" using assms(2) by simp
  with assms(1,3,4) have d: "js_trim (shortCode d) = shortCode d \<and> js_trim (originalUrl d) = originalUrl d"
    by (simp add: store_ok_def)
  have "set (db[i := d]) \<subseteq> insert d (set db)" by (rule set_update_subset_insert)
  with d assms(1) have "\<forall>x\<in>set (db[i := d]). js_trim (shortCode x) = shortCode x \<and>
      js_trim (originalUrl x) = originalUrl x"
    by (auto simp: store_ok_def)
  with assms show ?thesis
    by (simp add: store_ok_def map_list_update_same)
qed

lemma store_ok_insert:
  assumes "store_ok db" "findOne (by_originalUrl u) db = None" "fresh_at env db m"
  shows "store_ok (db @ [new_Url u (shortid_generate env m) now])"
proof -
  from assms(2) have "js_trim u \<notin> set (map originalUrl db)"
    by (auto simp: findOne_None by_originalUrl_def)
  moreover from assms(3) have "js_trim (shortid_generate env m) \<notin> set (map shortCode db)"
    by (auto simp: fresh_at_def)
  ultimately show ?thesis using assms(1)
    by (simp add: store_ok_def new_Url_def js_trim_idem)
qed

lemma links_touch:
  assumes "i < length db" "shortCode d = shortCode (db ! i)" "originalUrl d = originalUrl (db ! i)"
  shows "links (db[i := d]) = links db"
  using assms by (simp add: links_def map_list_update_same)

lemma handle_urls:
  assumes "handle env now rq st = Some (rsp, st')"
  shows "urls st' = urls st \<or>
    (\<exists>i d. i < length (urls st) \<and> d = urls st ! i \<and>
       urls st' = (urls st)[i := d\<lparr>clicks := js_add_one (clicks d), lastAccessed := Some now\<rparr>]) \<or>
    (\<exists>u m. findOne (by_originalUrl u) (urls st) = None \<and> fresh_at env (urls st) m \<and>
       urls st' = urls st @ [new_Url u (shortid_generate env m) now])"
proof (cases rq)
  case (Shorten input)
  with assms shorten_urls [of env now input st rsp st'] show ?thesis by auto
next
  case (Resolve code)
  with assms resolve_urls [of now code st] show ?thesis by auto
next
  case ListUrls
  with assms show ?thesis by (auto simp: list_urls_def)
next
  case GetStats
  with assms show ?thesis by (auto simp: stats_def Let_def)
qed

lemma handle_store_ok:
  assumes "handle env now rq st = Some (rsp, st')" "store_ok (urls st)"
  shows "store_ok (urls st')"
  using handle_urls [OF assms(1)] assms(2)
  by (auto simp: store_ok_touch store_ok_insert)

lemma handle_links:
  assumes "handle env now rq st = Some (rsp, st')"
  shows "links (urls st) \<subseteq> links (urls st')"
  using handle_urls [OF assms(1)]
  by (auto simp: links_touch) (simp add: links_def)

lemma shorten_link:
  assumes "shorten env now input st = Some (rsp, st')" "shortened rsp = Some (orig, code)"
  shows "(orig, code) \<in> links (urls st')"
proof -
  from shorten_success [OF assms] obtain u where u: "orig = js_trim u" and
    alt: "(\<exists>i d. findOne (by_originalUrl u) (urls st) = Some (i, d) \<and> code = shortCode d \<and> st' = st) \<or>
      (\<exists>m. code = js_trim (shortid_generate env m) \<and>
         st' = \<lparr>urls = urls st @ [new_Url u (shortid_generate env m) now], generated = Suc m\<rparr>)"
    by blast
  from alt show ?thesis
  proof
    assume "\<exists>i d. findOne (by_originalUrl u) (urls st) = Some (i, d) \<and> code = shortCode d \<and> st' = st"
    then obtain i d where f: "findOne (by_originalUrl u) (urls st) = Some (i, d)"
      and c: "code = shortCode d" "st' = st" by blast
    from findOne_Some [OF f] have "d \<in> set (urls st)" "by_originalUrl u d" by blast+
    with u c show ?thesis by (force simp: links_def by_originalUrl_def)
  next
    assume "\<exists>m. code = js_trim (shortid_generate env m) \<and>
         st' = \<lparr>urls = urls st @ [new_Url u (shortid_generate env m) now], generated = Suc m\<rparr>"
    with u show ?thesis by (auto simp: links_def new_Url_def)
  qed
qed

lemma links_code_determines:
  assumes "distinct (map shortCode db)" "(a, c) \<in> links db" "(b, c) \<in> links db"
  shows "a = b"
proof -
  from assms(2,3) obtain x y where xy: "x \<in> set db" "y \<in> set db" "shortCode x = c"
    "shortCode y = c" "originalUrl x = a" "originalUrl y = b"
    by (auto simp: links_def)
  with assms(1) have "x = y" by (metis distinct_map inj_onD)
  with xy show ?thesis by simp
qed

lemma reachable_store_ok: "reachable env st \<Longrightarrow> store_ok (urls st)"
proof (induction rule: reachable.induct)
  case initial
  show ?case by (simp add: store_ok_def)
next
  case (step st now rq rsp st')
  then show ?case using handle_store_ok by blast
qed

subsection \<open>Runs\<close>

lemma run_facts:
  assumes "run env reqs st = Some (rsps, st')" "store_ok (urls st)"
  shows "store_ok (urls st') \<and> links (urls st) \<subseteq> links (urls st') \<and> length rsps = length reqs \<and>
    (\<forall>k<length reqs. \<forall>orig code. shortened (rsps ! k) = Some (orig, code) \<longrightarrow>
       (orig, code) \<in> links (urls st') \<and>
       (\<forall>u. snd (reqs ! k) = Shorten (Some u) \<longrightarrow> orig = js_trim u))"
  using assms
proof (induction reqs arbitrary: st rsps)
  case Nil
  then show ?case by simp
next
  case (Cons a reqs)
  obtain now rq where a: "a = (now, rq)" by (cases a)
  from Cons.prems(1) a obtain rsp st1 where h: "handle env now rq st = Some (rsp, st1)"
    by (cases "handle env now rq st") auto
  with Cons.prems(1) a obtain rest where r: "run env reqs st1 = Some (rest, st')" "rsps = rsp # rest"
    by (cases "run env reqs st1") auto
  have ok1: "store_ok (urls st1)" using handle_store_ok [OF h Cons.prems(2)] .
  note IH = Cons.IH [OF r(1) ok1]
  have l01: "links (urls st) \<subseteq> links (urls st1)" using handle_links [OF h] .
  have head: "(orig, code) \<in> links (urls st') \<and>
       (\<forall>u. rq = Shorten (Some u) \<longrightarrow> orig = js_trim u)"
    if s: "shortened rsp = Some (orig, code)" for orig code
  proof (cases rq)
    case (Shorten input)
    with h have sh: "shorten env now input st = Some (rsp, st1)" by simp
    from shorten_link [OF sh s] IH have "(orig, code) \<in> links (urls st')" by blast
    moreover from shorten_success [OF sh s] have "\<forall>u. input = Some u \<longrightarrow> orig = js_trim u"
      by auto
    ultimately show ?thesis using Shorten by simp
  next
    case (Resolve c)
    with h s show ?thesis
      by (auto simp: resolve_def Let_def split: option.splits)
  next
    case ListUrls
    with h s show ?thesis by (auto simp: list_urls_def)
  next
    case GetStats
    with h s show ?thesis by (auto simp: stats_def Let_def)
  qed
  have "\<forall>k<length (a # reqs). \<forall>orig code. shortened (rsps ! k) = Some (orig, code) \<longrightarrow>
       (orig, code) \<in> links (urls st') \<and>
       (\<forall>u. snd ((a # reqs) ! k) = Shorten (Some u) \<longrightarrow> orig = js_trim u)"
  proof (intro allI impI)
    fix k orig code
    assume k: "k < length (a # reqs)" and s: "shortened (rsps ! k) = Some (orig, code)"
    show "(orig, code) \<in> links (urls st') \<and>
       (\<forall>u. snd ((a # reqs) ! k) = Shorten (Some u) \<longrightarrow> orig = js_trim u)"
    proof (cases k)
      case 0
      with s r(2) a head show ?thesis by simp
    next
      case (Suc j)
      with k s r(2) IH show ?thesis by simp
    qed
  qed
  with IH l01 r(2) show ?case by auto
qed

subsection \<open>Counting clicks\<close>

lemma js_add_one_exact: "n + k \<le> 2 ^ 53 \<Longrightarrow> (js_add_one ^^ k) n = n + k"
  by (induction k) (simp_all add: js_add_one_def)

lemma js_add_one_mono: "n \<le> (js_add_one ^^ k) n"
proof (induction k)
  case 0
  show ?case by simp
next
  case (Suc k)
  have "m \<le> js_add_one m" for m by (simp add: js_add_one_def)
  with Suc show ?case by (metis funpow.simps(2) le_trans o_apply)
qed

lemma findOne_touch:
  assumes "findOne P db = Some (i, d)" "P d'"
  shows "findOne P (db[i := d']) = Some (i, d')"
proof -
  from assms(1) have i: "first_index P db = Some i" by (auto simp: findOne_def)
  from first_index_Some [OF i] have "i < length db" by simp
  with first_index_update [OF i assms(2)] show ?thesis
    by (simp add: findOne_def)
qed

lemma resolve_times_found:
  assumes "findOne (by_shortCode code) (urls st) = Some (i, d)" "ts \<noteq> []"
  shows "resolve_times ts code st =
    (replicate (length ts) (Redirect (originalUrl d)),
     st\<lparr>urls := (urls st)[i := d\<lparr>clicks := (js_add_one ^^ length ts) (clicks d),
                                  lastAccessed := Some (last ts)\<rparr>]\<rparr>)"
  using assms(2,1)
proof (induction ts arbitrary: st d rule: list_nonempty_induct)
  case (single now)
  from resolve_found [OF single, of now] show ?case by simp
next
  case (cons now later)
  define d1 where "d1 = d\<lparr>clicks := js_add_one (clicks d), lastAccessed := Some now\<rparr>"
  define st1 where "st1 = st\<lparr>urls := (urls st)[i := d1]\<rparr>"
  have r: "resolve now code st = (Redirect (originalUrl d), st1)"
    using resolve_found [OF cons.prems, of now] by (simp add: st1_def d1_def)
  from findOne_Some [OF cons.prems] have "by_shortCode code d" by blast
  then have "by_shortCode code d1" by (simp add: by_shortCode_def d1_def)
  from findOne_touch [OF cons.prems this]
  have f1: "findOne (by_shortCode code) (urls st1) = Some (i, d1)" by (simp add: st1_def)
  have "(js_add_one ^^ length later) (js_add_one (clicks d)) =
      (js_add_one ^^ length (now # later)) (clicks d)"
    by (simp add: funpow_swap1)
  with cons.IH [OF f1] r cons.hyps show ?case
    by (simp add: st1_def d1_def)
qed

subsection \<open>One document for each URL\<close>

lemma filter_distinct_key:
  "distinct (map f xs) \<Longrightarrow> x \<in> set xs \<Longrightarrow> length (filter (\<lambda>y. f y = f x) xs) = 1"
proof (induction xs)
  case Nil
  then show ?case by simp
next
  case (Cons a xs)
  show ?case
  proof (cases "f a = f x")
    case True
    with Cons.prems(1) have "f x \<notin> f ` set xs" by simp
    then have "\<forall>y\<in>set xs. f y \<noteq> f x" by (metis imageI)
    then have "filter (\<lambda>y. f y = f x) xs = []" by (simp add: filter_empty_conv)
    with True show ?thesis by simp
  next
    case False
    with Cons show ?thesis by auto
  qed
qed

lemma shorten_store_ok:
  assumes "shorten env now input st = Some (rsp, st')" "store_ok (urls st)"
  shows "store_ok (urls st')"
  using handle_store_ok [of env now "Shorten input" st rsp st'] assms by simp

lemma resolve_linked:
  assumes "store_ok db" "urls st = db" "(orig, code) \<in> links db"
  shows "fst (resolve now code st) = Redirect orig"
proof -
  from assms(3) obtain d where d: "d \<in> set db" "originalUrl d = orig" "shortCode d = code"
    by (auto simp: links_def)
  with assms(1) have t: "js_trim code = code" by (auto simp: store_ok_def)
  have "by_shortCode code x \<longleftrightarrow> shortCode x = shortCode d" for x
    using d(3) t by (simp add: by_shortCode_def)
  moreover from assms(1) have "distinct (map shortCode db)" by (simp add: store_ok_def)
  ultimately obtain i where "findOne (by_shortCode code) db = Some (i, d)"
    using findOne_distinct [of shortCode db d "by_shortCode code"] d(1) by blast
  with assms(2) d(2) resolve_found [of code st i d now] show ?thesis by simp
qed

lemma findOne_by_originalUrl:
  assumes "store_ok db" "d \<in> set db" "originalUrl d = js_trim u"
  shows "\<exists>i. findOne (by_originalUrl u) db = Some (i, d)"
proof -
  have "by_originalUrl u x \<longleftrightarrow> originalUrl x = originalUrl d" for x
    using assms(3) by (simp add: by_originalUrl_def)
  moreover from assms(1) have "distinct (map originalUrl db)" by (simp add: store_ok_def)
  ultimately show ?thesis
    using findOne_distinct [of originalUrl db d "by_originalUrl u"] assms(2) by blast
qed

lemma handle_distinct_shortCode:
  assumes "handle env now rq st = Some (rsp, st')" "distinct (map shortCode (urls st))"
  shows "distinct (map shortCode (urls st'))"
proof -
  from handle_urls [OF assms(1)] consider
    "urls st' = urls st"
    | i d where "i < length (urls st)" "d = urls st ! i"
        "urls st' = (urls st)[i := d\<lparr>clicks := js_add_one (clicks d), lastAccessed := Some now\<rparr>]"
    | u m where "fresh_at env (urls st) m"
        "urls st' = urls st @ [new_Url u (shortid_generate env m) now]"
    by blast
  then show ?thesis
  proof cases
    case 1
    with assms(2) show ?thesis by simp
  next
    case 2
    with assms(2) show ?thesis by (simp add: map_list_update_same)
  next
    case 3
    from 3(1) have "js_trim (shortid_generate env m) \<notin> set (map shortCode (urls st))"
      by (auto simp: fresh_at_def)
    with 3(2) assms(2) show ?thesis by (simp add: new_Url_def)
  qed
qed

subsection \<open>Two URLs, one after the other\<close>

lemma first_index_append_new:
  "first_index P xs = None \<Longrightarrow> P x \<Longrightarrow> first_index P (xs @ [x]) = Some (length xs)"
  by (induction xs) (auto split: if_splits)

lemma shorten_creates:
  assumes "u \<noteq> []" "isValidUrl env u" "js_trim u \<noteq> []"
    "findOne (by_originalUrl u) (urls st) = None"
    "first_fresh env (urls st) (generated st) m" "js_trim (shortid_generate env m) \<noteq> []"
  shows "shorten env now (Some u) st =
    Some (Json 201 (Shortened (js_trim u) (shortUrl env (js_trim (shortid_generate env m)))
                      (js_trim (shortid_generate env m))),
          \<lparr>urls = urls st @ [new_Url u (shortid_generate env m) now], generated = Suc m\<rparr>)"
proof -
  from assms(5) have "fresh_at env (urls st) m" by (simp add: first_fresh_def)
  from save_new_fresh [OF this, of u now] assms(3,6)
  have "save_new (new_Url u (shortid_generate env m) now) (urls st) =
      Inr (urls st @ [new_Url u (shortid_generate env m) now])"
    by simp
  with shorten_new [OF assms(1,2,4,5), of now] show ?thesis
    by (simp add: Let_def new_Url_def)
qed

lemma shorten_shared:
  assumes "store_ok (urls st)" "u2 \<noteq> []" "isValidUrl env u2" "js_trim u1 = js_trim u2"
    "shorten env t1 (Some u1) st = Some (r1, st1)" "shortened r1 = Some (orig, code)"
  shows "shorten env t2 (Some u2) st1 = Some (Json 200 (Shortened orig (shortUrl env code) code), st1) \<and>
    length (filter (by_originalUrl u2) (urls st1)) = 1"
proof -
  have ok1: "store_ok (urls st1)" using assms(5,1) by (rule shorten_store_ok)
  have "(orig, code) \<in> links (urls st1)" using assms(5,6) by (rule shorten_link)
  moreover from shorten_success [OF assms(5,6)] assms(4) have o: "orig = js_trim u2" by auto
  ultimately obtain d where d: "d \<in> set (urls st1)" "originalUrl d = js_trim u2"
    "shortCode d = code" by (auto simp: links_def)
  from findOne_by_originalUrl [OF ok1 d(1,2)] obtain i where
    f: "findOne (by_originalUrl u2) (urls st1) = Some (i, d)" by blast
  from shorten_existing [OF assms(2,3) f, of t2] d o
  have 1: "shorten env t2 (Some u2) st1 =
      Some (Json 200 (Shortened orig (shortUrl env code) code), st1)" by simp
  from ok1 have "distinct (map originalUrl (urls st1))" by (simp add: store_ok_def)
  from filter_distinct_key [OF this d(1)] d(2)
  have "length (filter (by_originalUrl u2) (urls st1)) = 1"
    by (simp add: by_originalUrl_def [abs_def])
  with 1 show ?thesis by simp
qed

subsection \<open>Totals\<close>



section \<open>The claims\<close>



text \<open>
  C2, as the code has it.  No two documents of a reachable state share a \<open>shortCode\<close>,
  and every handler keeps it so; a new document is stored only when no document has its
  \<open>shortCode\<close>; and in a run from a reachable state, two successful \<open>shorten\<close> calls
  whose URLs differ after trimming return different codes.
\<close>

theorem shortCode_unique:
  "(reachable env st \<longrightarrow> distinct (map shortCode (urls st))) \<and>
   (\<forall>now rq rsp st'. distinct (map shortCode (urls st)) \<and> handle env now rq st = Some (rsp, st') \<longrightarrow>
      distinct (map shortCode (urls st'))) \<and>
   (\<forall>d db db'. save_new d db = Inr db' \<longrightarrow>
      shortCode d \<notin> set (map shortCode db) \<and> db' = db @ [d]) \<and>
   (\<forall>reqs rsps st' i j u1 u2 o1 c1 o2 c2.
      reachable env st \<and> run env reqs st = Some (rsps, st') \<and>
      i < length reqs \<and> j < length reqs \<and>
      snd (reqs ! i) = Shorten (Some u1) \<and> snd (reqs ! j) = Shorten (Some u2) \<and>
      js_trim u1 \<noteq> js_trim u2 \<and>
      shortened (rsps ! i) = Some (o1, c1) \<and> shortened (rsps ! j) = Some (o2, c2) \<longrightarrow>
      c1 \<noteq> c2)"
proof (intro conjI allI impI)
  assume "reachable env st"
  then have "store_ok (urls st)" by (rule reachable_store_ok)
  then show "distinct (map shortCode (urls st))" by (simp add: store_ok_def)
next
  fix now rq rsp st'
  assume "distinct (map shortCode (urls st)) \<and> handle env now rq st = Some (rsp, st')"
  then show "distinct (map shortCode (urls st'))"
    using handle_distinct_shortCode by blast
next
  fix d db db'
  assume "save_new d db = Inr db'"
  then show "shortCode d \<notin> set (map shortCode db)" "db' = db @ [d]"
    by (auto simp: save_new_def split: if_splits)
next
  fix reqs rsps st' i j u1 u2 o1 c1 o2 c2
  assume a: "reachable env st \<and> run env reqs st = Some (rsps, st') \<and>
      i < length reqs \<and> j < length reqs \<and>
      snd (reqs ! i) = Shorten (Some u1) \<and> snd (reqs ! j) = Shorten (Some u2) \<and>
      js_trim u1 \<noteq> js_trim u2 \<and>
      shortened (rsps ! i) = Some (o1, c1) \<and> shortened (rsps ! j) = Some (o2, c2)"
  then have ok: "store_ok (urls st)" using reachable_store_ok by blast
  from a have r: "run env reqs st = Some (rsps, st')" by simp
  note facts = run_facts [OF r ok]
  from facts a have 1: "(o1, c1) \<in> links (urls st')" "o1 = js_trim u1" by blast+
  from facts a have 2: "(o2, c2) \<in> links (urls st')" "o2 = js_trim u2" by blast+
  from facts have d: "distinct (map shortCode (urls st'))" by (simp add: store_ok_def)
  show "c1 \<noteq> c2"
  proof
    assume "c1 = c2"
    with links_code_determines [OF d, of o1 c1 o2] 1 2 have "o1 = o2" by simp
    with 1 2 a show False by simp
  qed
qed

theorem shortCode_unique_witness:
  "reachable local_env empty_state \<and>
   run local_env [(1, Shorten (Some ''http://example.com'')),
                  (2, Shorten (Some ''http://example.org''))] empty_state =
     Some ([Json 201 (Shortened ''http://example.com'' ''http://localhost:3000/code'' ''code''),
            Json 201 (Shortened ''http://example.org'' ''http://localhost:3000/code0'' ''code0'')],
           \<lparr>urls = [\<lparr>originalUrl = ''http://example.com'', shortCode = ''code'', clicks = 0,
                     createdAt = 1, lastAccessed = None\<rparr>,
                    \<lparr>originalUrl = ''http://example.org'', shortCode = ''code0'', clicks = 0,
                     createdAt = 2, lastAccessed = None\<rparr>],
            generated = 2\<rparr>) \<and>
   ''code'' \<noteq> ''code0'' \<and>
   distinct (map shortCode (urls empty_state))"
proof -
  define reqs where "reqs = [(1::nat, Shorten (Some ''http://example.com'')),
                  (2, Shorten (Some ''http://example.org''))]"
  define rsps where "rsps =
    [Json 201 (Shortened ''http://example.com'' ''http://localhost:3000/code'' ''code''),
     Json 201 (Shortened ''http://example.org'' ''http://localhost:3000/code0'' ''code0'')]"
  define final where "final =
           \<lparr>urls = [\<lparr>originalUrl = ''http://example.com'', shortCode = ''code'', clicks = 0,
                     createdAt = 1, lastAccessed = None\<rparr>,
                    \<lparr>originalUrl = ''http://example.org'', shortCode = ''code0'', clicks = 0,
                     createdAt = 2, lastAccessed = None\<rparr>],
            generated = 2\<rparr>"
  have re: "reachable local_env empty_state"
    unfolding empty_state_def by (rule reachable.initial)
  have "run local_env [(1, Shorten (Some ''http://example.com'')),
                  (2, Shorten (Some ''http://example.org''))] empty_state =
     Some ([Json 201 (Shortened ''http://example.com'' ''http://localhost:3000/code'' ''code''),
            Json 201 (Shortened ''http://example.org'' ''http://localhost:3000/code0'' ''code0'')],
           \<lparr>urls = [\<lparr>originalUrl = ''http://example.com'', shortCode = ''code'', clicks = 0,
                     createdAt = 1, lastAccessed = None\<rparr>,
                    \<lparr>originalUrl = ''http://example.org'', shortCode = ''code0'', clicks = 0,
                     createdAt = 2, lastAccessed = None\<rparr>],
            generated = 2\<rparr>)"
    by code_simp
  then have ru: "run local_env reqs empty_state = Some (rsps, final)"
    by (simp add: reqs_def rsps_def final_def)
  have t: "js_trim ''http://example.com'' \<noteq> js_trim ''http://example.org''"
    by code_simp
  note u = shortCode_unique [of local_env empty_state]
  from u re have 1: "distinct (map shortCode (urls empty_state))" by blast
  have "snd (reqs ! 0) = Shorten (Some ''http://example.com'')"
    "snd (reqs ! 1) = Shorten (Some ''http://example.org'')"
    "shortened (rsps ! 0) = Some (''http://example.com'', ''code'')"
    "shortened (rsps ! 1) = Some (''http://example.org'', ''code0'')"
    "0 < length reqs" "1 < length reqs"
    by (simp_all add: reqs_def rsps_def)
  with u re ru t have 2: "''code'' \<noteq> ''code0''" by blast
  from re ru 1 2 show ?thesis by (simp add: reqs_def rsps_def final_def)
qed

text \<open>
  The claim as written fails for two URLs that differ only in white space at the ends:
  both calls succeed, and they return the same code.
\<close>

theorem shortCode_unique_counterexample:
  "run local_env [(1, Shorten (Some ''http://example.com'')),
                  (2, Shorten (Some ''http://example.com ''))] empty_state =
     Some ([Json 201 (Shortened ''http://example.com'' ''http://localhost:3000/code'' ''code''),
            Json 200 (Shortened ''http://example.com'' ''http://localhost:3000/code'' ''code'')],
           \<lparr>urls = [\<lparr>originalUrl = ''http://example.com'', shortCode = ''code'', clicks = 0,
                     createdAt = 1, lastAccessed = None\<rparr>],
            generated = 1\<rparr>)"
  by code_simp

text \<open>
  C3, as the code has it.  The loop that looks for an unused code has no ceiling on its
  attempts: when some candidate from call \<open>k\<close> on is unused, it returns the first such
  candidate, after however many collisions; when every candidate collides it never
  returns, and then \<open>shorten\<close> gives no answer at all (none of the handlers' answers is
  GenerationExhausted).
\<close>

theorem unique_code_unbounded:
  "(first_fresh env db k m \<longrightarrow> unique_code env db k = Some (shortid_generate env m, Suc m)) \<and>
   ((\<forall>j\<ge>k. \<not> fresh_at env db j) \<longrightarrow> unique_code env db k = None) \<and>
   ((\<forall>j\<ge>generated st. \<not> fresh_at env (urls st) j) \<and> u \<noteq> [] \<and> isValidUrl env u \<and>
      findOne (by_originalUrl u) (urls st) = None \<longrightarrow>
    shorten env now (Some u) st = None)"
proof (intro conjI impI)
  assume "first_fresh env db k m"
  then show "unique_code env db k = Some (shortid_generate env m, Suc m)"
    by (rule unique_code_first)
next
  assume "\<forall>j\<ge>k. \<not> fresh_at env db j"
  then show "unique_code env db k = None"
    by (simp add: unique_code_None)
next
  assume a: "(\<forall>j\<ge>generated st. \<not> fresh_at env (urls st) j) \<and> u \<noteq> [] \<and> isValidUrl env u \<and>
      findOne (by_originalUrl u) (urls st) = None"
  then have "unique_code env (urls st) (generated st) = None"
    by (simp add: unique_code_None)
  with a show "shorten env now (Some u) st = None"
    by (simp add: shorten_def)
qed

text \<open>Eleven collisions, and the twelfth candidate is returned.\<close>

theorem unique_code_unbounded_witness:
  "first_fresh slow_env (urls taken_state) 0 11 \<and>
   unique_code slow_env (urls taken_state) 0 = Some (''free'', 12)"
proof -
  have h: "first_fresh slow_env (urls taken_state) 0 11"
    by code_simp
  have g: "shortid_generate slow_env 11 = ''free''"
    by (simp add: slow_env_def)
  from unique_code_unbounded [of slow_env "urls taken_state" 0 11] h g show ?thesis
    by simp
qed

text \<open>
  The claim as written fails when the generator keeps returning a code that is taken:
  the request for a new URL is never answered.
\<close>

theorem unique_code_bounded_counterexample:
  "shorten stuck_env 1 (Some ''http://example.com'') taken_state = None"
proof -
  have "\<not> fresh_at stuck_env (urls taken_state) j" for j
    by (simp add: fresh_at_def stuck_env_def taken_state_def js_trim_def js_white_space_def)
  then have "unique_code stuck_env (urls taken_state) (generated taken_state) = None"
    by (simp add: unique_code_None)
  moreover have "isValidUrl stuck_env ''http://example.com''"
    by code_simp
  moreover have "findOne (by_originalUrl ''http://example.com'') (urls taken_state) = None"
    by code_simp
  ultimately show ?thesis
    by (simp add: shorten_def)
qed

text \<open>
  C4, as the code has it.  The stored \<open>originalUrl\<close> is the input trimmed of white space
  at both ends: when \<open>shorten\<close> succeeds for \<open>u\<close> with code \<open>c\<close>, resolving \<open>c\<close> redirects to
  \<open>u\<close> trimmed, which is \<open>u\<close> itself when \<open>u\<close> has no white space at its ends.
\<close>

theorem round_trip_trimmed:
  assumes "store_ok (urls st)" "shorten env now (Some u) st = Some (rsp, st')"
    "shortened rsp = Some (orig, code)"
  shows "fst (resolve later code st') = Redirect (js_trim u) \<and>
         (js_trim u = u \<longrightarrow> fst (resolve later code st') = Redirect u)"
proof -
  have ok: "store_ok (urls st')" using assms(2,1) by (rule shorten_store_ok)
  have l: "(orig, code) \<in> links (urls st')" using assms(2,3) by (rule shorten_link)
  from shorten_success [OF assms(2,3)] have "orig = js_trim u" by auto
  with resolve_linked [OF ok refl l, of later] show ?thesis by simp
qed

theorem round_trip_trimmed_witness:
  "fst (resolve 2 ''code'' 
     \<lparr>urls = [\<lparr>originalUrl = ''http://example.com'', shortCode = ''code'', clicks = 0,
               createdAt = 1, lastAccessed = None\<rparr>],
      generated = 1\<rparr>) = Redirect ''http://example.com''"
proof -
  have ok: "store_ok (urls empty_state)"
    by code_simp
  have s: "shorten local_env 1 (Some ''http://example.com'') empty_state =
      Some (Json 201 (Shortened ''http://example.com'' ''http://localhost:3000/code'' ''code''),
            \<lparr>urls = [\<lparr>originalUrl = ''http://example.com'', shortCode = ''code'', clicks = 0,
                      createdAt = 1, lastAccessed = None\<rparr>],
             generated = 1\<rparr>)"
    by code_simp
  have c: "shortened (Json 201 (Shortened ''http://example.com'' ''http://localhost:3000/code''
      ''code'')) = Some (''http://example.com'', ''code'')"
    by simp
  have t: "js_trim ''http://example.com'' = ''http://example.com''"
    by code_simp
  from round_trip_trimmed [OF ok s c, of 2] t show ?thesis
    by simp
qed

text \<open>
  The claim as written fails for a valid URL with white space around it: the redirect
  goes to the trimmed text, not to the input.
\<close>

theorem round_trip_counterexample:
  "isValidUrl local_env '' http://example.com/page '' \<and>
   shorten local_env 1 (Some '' http://example.com/page '') empty_state =
     Some (Json 201 (Shortened ''http://example.com/page'' ''http://localhost:3000/code'' ''code''),
           \<lparr>urls = [\<lparr>originalUrl = ''http://example.com/page'', shortCode = ''code'',
                     clicks = 0, createdAt = 1, lastAccessed = None\<rparr>],
            generated = 1\<rparr>) \<and>
   fst (resolve 2 ''code''
          \<lparr>urls = [\<lparr>originalUrl = ''http://example.com/page'', shortCode = ''code'',
                    clicks = 0, createdAt = 1, lastAccessed = None\<rparr>],
           generated = 1\<rparr>) = Redirect ''http://example.com/page'' \<and>
   ''http://example.com/page'' \<noteq> '' http://example.com/page ''"
proof -
  have v: "isValidUrl local_env '' http://example.com/page ''"
    by code_simp
  have s: "shorten local_env 1 (Some '' http://example.com/page '') empty_state =
     Some (Json 201 (Shortened ''http://example.com/page'' ''http://localhost:3000/code'' ''code''),
           \<lparr>urls = [\<lparr>originalUrl = ''http://example.com/page'', shortCode = ''code'',
                     clicks = 0, createdAt = 1, lastAccessed = None\<rparr>],
            generated = 1\<rparr>)"
    by code_simp
  have t: "js_trim ''code'' = ''code''"
    by code_simp
  have "findOne (by_shortCode ''code'')
      (urls \<lparr>urls = [\<lparr>originalUrl = ''http://example.com/page'', shortCode = ''code'',
                    clicks = 0, createdAt = 1, lastAccessed = None\<rparr>],
             generated = 1\<rparr>) =
     Some (0, \<lparr>originalUrl = ''http://example.com/page'', shortCode = ''code'',
                    clicks = 0, createdAt = 1, lastAccessed = None\<rparr>)"
    by (simp add: findOne_def by_shortCode_def t)
  from resolve_found [OF this, of 2] v s show ?thesis
    by simp
qed

text \<open>
  C5, as the code has it.  \<open>clicks\<close> is a JavaScript number, so the count is exact up to
  \<open>2 ^ 53\<close>: when a document has the code and its \<open>clicks\<close> plus the number of calls stays
  within that bound, resolving the code once for each of the given times answers every
  call with a redirect to \<open>originalUrl\<close> and leaves the collection as it was except that
  this document's \<open>clicks\<close> has grown by the number of calls and its \<open>lastAccessed\<close> is
  the time of the last call.  Without the bound, a call never lowers \<open>clicks\<close>.
\<close>

theorem resolve_counts_clicks:
  assumes "findOne (by_shortCode code) (urls st) = Some (i, d)" "ts \<noteq> []"
  shows "(clicks d + length ts \<le> 2 ^ 53 \<longrightarrow>
          resolve_times ts code st =
            (replicate (length ts) (Redirect (originalUrl d)),
             st\<lparr>urls := (urls st)[i := d\<lparr>clicks := clicks d + length ts,
                                          lastAccessed := Some (last ts)\<rparr>]\<rparr>)) \<and>
         resolve_times ts code st =
            (replicate (length ts) (Redirect (originalUrl d)),
             st\<lparr>urls := (urls st)[i := d\<lparr>clicks := (js_add_one ^^ length ts) (clicks d),
                                          lastAccessed := Some (last ts)\<rparr>]\<rparr>) \<and>
         clicks d \<le> (js_add_one ^^ length ts) (clicks d)"
proof -
  have general: "resolve_times ts code st =
            (replicate (length ts) (Redirect (originalUrl d)),
             st\<lparr>urls := (urls st)[i := d\<lparr>clicks := (js_add_one ^^ length ts) (clicks d),
                                          lastAccessed := Some (last ts)\<rparr>]\<rparr>)"
    using assms by (rule resolve_times_found)
  have exact: "(js_add_one ^^ length ts) (clicks d) = clicks d + length ts"
    if "clicks d + length ts \<le> 2 ^ 53"
    using that by (rule js_add_one_exact)
  from general exact js_add_one_mono [of "clicks d" "length ts"] show ?thesis
    by simp
qed

theorem resolve_counts_clicks_witness:
  "resolve_times [10, 11, 12] ''code'' three_urls =
     ([Redirect ''http://example.com/a'', Redirect ''http://example.com/a'',
       Redirect ''http://example.com/a''],
      three_urls\<lparr>urls := (urls three_urls)
         [0 := \<lparr>originalUrl = ''http://example.com/a'', shortCode = ''code'', clicks = 6,
                createdAt = 1, lastAccessed = Some 12\<rparr>]\<rparr>)"
proof -
  have f: "findOne (by_shortCode ''code'') (urls three_urls) =
      Some (0, \<lparr>originalUrl = ''http://example.com/a'', shortCode = ''code'', clicks = 3,
                createdAt = 1, lastAccessed = Some 7\<rparr>)"
    by code_simp
  have n: "[10, 11, 12 :: nat] \<noteq> []" by simp
  from resolve_counts_clicks [OF f n] show ?thesis
    by simp
qed

text \<open>
  The claim as written fails at the bound: a document whose \<open>clicks\<close> is \<open>2 ^ 53\<close> keeps
  that value when its code is resolved.
\<close>

theorem resolve_counts_clicks_counterexample:
  "resolve_times [10] ''code'' saturated_state =
     ([Redirect ''http://example.com''],
      \<lparr>urls = [\<lparr>originalUrl = ''http://example.com'', shortCode = ''code'',
                clicks = 9007199254740992, createdAt = 1, lastAccessed = Some 10\<rparr>],
       generated = 1\<rparr>)"
proof -
  have t: "js_trim ''code'' = ''code''"
    by code_simp
  have f: "findOne (by_shortCode ''code'') (urls saturated_state) =
      Some (0, \<lparr>originalUrl = ''http://example.com'', shortCode = ''code'',
                clicks = 9007199254740992, createdAt = 1, lastAccessed = Some 2\<rparr>)"
    by (simp add: findOne_def by_shortCode_def t saturated_state_def)
  have s: "js_add_one 9007199254740992 = 9007199254740992"
    by (simp add: js_add_one_def)
  from resolve_found [OF f, of 10] s show ?thesis
    by (simp add: saturated_state_def)
qed

text \<open>
  C6, as the code has it.  A missing or empty \<open>originalUrl\<close> is answered MissingUrl; a
  non-empty one is answered InvalidUrl exactly when the URL constructor rejects it; both
  answers leave the state as it was, and they differ.  The constructor decides alone: an
  input it accepts is not rejected for lacking a host.
\<close>

theorem shorten_validation:
  "(input = None \<or> input = Some [] \<longrightarrow> shorten env now input st = Some (MissingUrl, st)) \<and>
   (\<forall>u. u \<noteq> [] \<and> \<not> URL_parses env u \<longrightarrow>
      shorten env now (Some u) st = Some (InvalidUrl, st)) \<and>
   (\<forall>u rsp st'. u \<noteq> [] \<and> URL_parses env u \<and> shorten env now (Some u) st = Some (rsp, st') \<longrightarrow>
      rsp \<noteq> InvalidUrl \<and> rsp \<noteq> MissingUrl) \<and>
   MissingUrl \<noteq> InvalidUrl"
proof (intro conjI allI impI)
  assume "input = None \<or> input = Some []"
  then show "shorten env now input st = Some (MissingUrl, st)"
    by (auto simp: shorten_def MissingUrl_def)
next
  fix u
  assume "u \<noteq> [] \<and> \<not> URL_parses env u"
  then show "shorten env now (Some u) st = Some (InvalidUrl, st)"
    by (simp add: shorten_def isValidUrl_def InvalidUrl_def)
next
  fix u rsp st'
  assume a: "u \<noteq> [] \<and> URL_parses env u \<and> shorten env now (Some u) st = Some (rsp, st')"
  then have "\<exists>n b. rsp = Json n b \<and> n \<noteq> 400"
    by (auto simp: shorten_def isValidUrl_def Let_def
        split: option.splits sum.splits prod.splits)
  then show "rsp \<noteq> InvalidUrl" "rsp \<noteq> MissingUrl"
    by (auto simp: InvalidUrl_def MissingUrl_def)
next
  show "MissingUrl \<noteq> InvalidUrl"
    by (simp add: MissingUrl_def InvalidUrl_def)
qed

theorem shorten_validation_witness:
  "shorten local_env 1 None three_urls = Some (MissingUrl, three_urls) \<and>
   shorten local_env 1 (Some '''') three_urls = Some (MissingUrl, three_urls) \<and>
   ''not a url'' \<noteq> [] \<and> \<not> URL_parses local_env ''not a url'' \<and>
   shorten local_env 1 (Some ''not a url'') three_urls = Some (InvalidUrl, three_urls)"
proof -
  have h: "''not a url'' \<noteq> [] \<and> \<not> URL_parses local_env ''not a url''"
    by code_simp
  note v = shorten_validation [of _ local_env 1 three_urls]
  from v [of None] have 1: "shorten local_env 1 None three_urls = Some (MissingUrl, three_urls)"
    by simp
  from v [of "Some []"] have 2: "shorten local_env 1 (Some []) three_urls = Some (MissingUrl, three_urls)"
    by simp
  from v [of None] h
  have 3: "shorten local_env 1 (Some ''not a url'') three_urls = Some (InvalidUrl, three_urls)"
    by blast
  from 1 2 3 h show ?thesis by simp
qed

text \<open>
  The claim as written fails at \<open>mailto:x\<close>: a scheme and a path, no host; the URL
  constructor accepts it, and \<open>shorten\<close> stores it.
\<close>

theorem shorten_validation_counterexample:
  "split_scheme (url_input ''mailto:x'') = Some (''mailto'', ''x'') \<and>
   shorten local_env 1 (Some ''mailto:x'') empty_state =
     Some (Json 201 (Shortened ''mailto:x'' ''http://localhost:3000/code'' ''code''),
           \<lparr>urls = [\<lparr>originalUrl = ''mailto:x'', shortCode = ''code'', clicks = 0,
                     createdAt = 1, lastAccessed = None\<rparr>],
            generated = 1\<rparr>)"
  by code_simp

text \<open>
  C7, as the code has it.  The code of the request is trimmed of white space at both
  ends before it is looked up.  When no document has the trimmed code, \<open>resolve\<close> answers
  NotFound and changes nothing: the collection, every \<open>clicks\<close> and \<open>lastAccessed\<close> in it,
  and the generator are as before.  When a document has the trimmed code, the answer is
  not NotFound.
\<close>

theorem resolve_absent:
  "(js_trim code \<notin> set (map shortCode (urls st)) \<longrightarrow> resolve now code st = (NotFound, st)) \<and>
   (js_trim code \<in> set (map shortCode (urls st)) \<longrightarrow> fst (resolve now code st) \<noteq> NotFound)"
proof (intro conjI impI)
  assume a: "js_trim code \<notin> set (map shortCode (urls st))"
  have "\<not> by_shortCode code d" if "d \<in> set (urls st)" for d
  proof
    assume "by_shortCode code d"
    then have "js_trim code = shortCode d" by (simp add: by_shortCode_def)
    with that a show False by simp
  qed
  then have "findOne (by_shortCode code) (urls st) = None"
    by (simp add: findOne_None)
  then show "resolve now code st = (NotFound, st)"
    by (simp add: resolve_missing NotFound_def)
next
  assume "js_trim code \<in> set (map shortCode (urls st))"
  then obtain d where "d \<in> set (urls st)" "by_shortCode code d"
    by (auto simp: by_shortCode_def)
  then have "findOne (by_shortCode code) (urls st) \<noteq> None"
    using findOne_None [of "by_shortCode code" "urls st"] by blast
  then obtain i d' where "findOne (by_shortCode code) (urls st) = Some (i, d')"
    by (cases "findOne (by_shortCode code) (urls st)") auto
  from resolve_found [OF this, of now] show "fst (resolve now code st) \<noteq> NotFound"
    by (simp add: NotFound_def)
qed

theorem resolve_absent_witness:
  "js_trim ''nonexistent'' \<notin> set (map shortCode (urls three_urls)) \<and>
   resolve 10 ''nonexistent'' three_urls = (NotFound, three_urls)"
proof -
  have n: "js_trim ''nonexistent'' \<notin> set (map shortCode (urls three_urls))"
    by code_simp
  from n resolve_absent [of "''nonexistent''" three_urls 10] show ?thesis by simp
qed

text \<open>
  The claim as written fails for a code with a leading space: no document has
  \<open>'' code''\<close> as its \<open>shortCode\<close>, yet after \<open>shorten\<close> has stored \<open>''code''\<close> the request
  is redirected and a click is counted.
\<close>

theorem resolve_absent_counterexample:
  "shorten local_env 1 (Some ''http://example.com'') empty_state =
     Some (Json 201 (Shortened ''http://example.com'' ''http://localhost:3000/code'' ''code''),
           \<lparr>urls = [\<lparr>originalUrl = ''http://example.com'', shortCode = ''code'', clicks = 0,
                     createdAt = 1, lastAccessed = None\<rparr>],
            generated = 1\<rparr>) \<and>
   '' code'' \<notin> set (map shortCode
       (urls \<lparr>urls = [\<lparr>originalUrl = ''http://example.com'', shortCode = ''code'', clicks = 0,
                         createdAt = 1, lastAccessed = None\<rparr>],
              generated = 1\<rparr>)) \<and>
   resolve 2 '' code''
       \<lparr>urls = [\<lparr>originalUrl = ''http://example.com'', shortCode = ''code'', clicks = 0,
                 createdAt = 1, lastAccessed = None\<rparr>],
        generated = 1\<rparr> =
     (Redirect ''http://example.com'',
      \<lparr>urls = [\<lparr>originalUrl = ''http://example.com'', shortCode = ''code'', clicks = 1,
                createdAt = 1, lastAccessed = Some 2\<rparr>],
       generated = 1\<rparr>)"
proof -
  have s: "shorten local_env 1 (Some ''http://example.com'') empty_state =
     Some (Json 201 (Shortened ''http://example.com'' ''http://localhost:3000/code'' ''code''),
           \<lparr>urls = [\<lparr>originalUrl = ''http://example.com'', shortCode = ''code'', clicks = 0,
                     createdAt = 1, lastAccessed = None\<rparr>],
            generated = 1\<rparr>)"
    by code_simp
  have t: "js_trim '' code'' = ''code''"
    by code_simp
  have "findOne (by_shortCode '' code'')
      (urls \<lparr>urls = [\<lparr>originalUrl = ''http://example.com'', shortCode = ''code'',
                    clicks = 0, createdAt = 1, lastAccessed = None\<rparr>],
             generated = 1\<rparr>) =
     Some (0, \<lparr>originalUrl = ''http://example.com'', shortCode = ''code'',
                    clicks = 0, createdAt = 1, lastAccessed = None\<rparr>)"
    by (simp add: findOne_def by_shortCode_def t)
  from resolve_found [OF this, of 2] s show ?thesis
    by (simp add: js_add_one_def)
qed




text \<open>
  C10, as the code has it.  The lookup compares the stored \<open>originalUrl\<close> with the input
  trimmed of white space at both ends, by equality of strings and with no other
  normalisation.  Two valid URLs that differ after trimming and have no document yet each
  get a document of their own when they are shortened one after the other, with
  different codes (the generator yielding an unused, non-empty candidate each time).
  Two valid URLs that are equal after trimming share one document and one code: when
  the first has been shortened, the second is answered with the same code and nothing is
  stored.
\<close>

theorem lookup_by_trimmed_text:
  "((findOne (by_originalUrl u) db = None) = (js_trim u \<notin> set (map originalUrl db))) \<and>
   (js_trim u1 \<noteq> js_trim u2 \<and>
    u1 \<noteq> [] \<and> isValidUrl env u1 \<and> js_trim u1 \<noteq> [] \<and>
    u2 \<noteq> [] \<and> isValidUrl env u2 \<and> js_trim u2 \<noteq> [] \<and>
    findOne (by_originalUrl u1) (urls st) = None \<and> findOne (by_originalUrl u2) (urls st) = None \<and>
    first_fresh env (urls st) (generated st) m1 \<and> js_trim (shortid_generate env m1) \<noteq> [] \<and>
    first_fresh env (urls st @ [new_Url u1 (shortid_generate env m1) t1]) (Suc m1) m2 \<and>
    js_trim (shortid_generate env m2) \<noteq> [] \<longrightarrow>
      shorten env t1 (Some u1) st =
        Some (Json 201 (Shortened (js_trim u1) (shortUrl env (js_trim (shortid_generate env m1)))
                          (js_trim (shortid_generate env m1))),
              \<lparr>urls = urls st @ [new_Url u1 (shortid_generate env m1) t1], generated = Suc m1\<rparr>) \<and>
      shorten env t2 (Some u2)
          \<lparr>urls = urls st @ [new_Url u1 (shortid_generate env m1) t1], generated = Suc m1\<rparr> =
        Some (Json 201 (Shortened (js_trim u2) (shortUrl env (js_trim (shortid_generate env m2)))
                          (js_trim (shortid_generate env m2))),
              \<lparr>urls = urls st @ [new_Url u1 (shortid_generate env m1) t1,
                                  new_Url u2 (shortid_generate env m2) t2],
               generated = Suc m2\<rparr>) \<and>
      js_trim (shortid_generate env m1) \<noteq> js_trim (shortid_generate env m2)) \<and>
   (store_ok (urls st) \<and> js_trim u1 = js_trim u2 \<and> u2 \<noteq> [] \<and> isValidUrl env u2 \<and>
    shorten env t1 (Some u1) st = Some (r1, st1) \<and> shortened r1 = Some (o1, c1) \<longrightarrow>
      shorten env t2 (Some u2) st1 = Some (Json 200 (Shortened o1 (shortUrl env c1) c1), st1) \<and>
      length (filter (by_originalUrl u2) (urls st1)) = 1)"
proof (intro conjI impI)
  have look: "(findOne (by_originalUrl u) db = None) = (js_trim u \<notin> set (map originalUrl db))"
    for u db
    unfolding findOne_None by_originalUrl_def by (metis (mono_tags) image_iff list.set_map)
  show "(findOne (by_originalUrl u) db = None) = (js_trim u \<notin> set (map originalUrl db))"
    by (rule look)
  {
    assume a: "js_trim u1 \<noteq> js_trim u2 \<and>
      u1 \<noteq> [] \<and> isValidUrl env u1 \<and> js_trim u1 \<noteq> [] \<and>
      u2 \<noteq> [] \<and> isValidUrl env u2 \<and> js_trim u2 \<noteq> [] \<and>
      findOne (by_originalUrl u1) (urls st) = None \<and> findOne (by_originalUrl u2) (urls st) = None \<and>
      first_fresh env (urls st) (generated st) m1 \<and> js_trim (shortid_generate env m1) \<noteq> [] \<and>
      first_fresh env (urls st @ [new_Url u1 (shortid_generate env m1) t1]) (Suc m1) m2 \<and>
      js_trim (shortid_generate env m2) \<noteq> []"
    define st1 where
      "st1 = \<lparr>urls = urls st @ [new_Url u1 (shortid_generate env m1) t1], generated = Suc m1\<rparr>"
    from a have 1: "shorten env t1 (Some u1) st =
        Some (Json 201 (Shortened (js_trim u1) (shortUrl env (js_trim (shortid_generate env m1)))
                          (js_trim (shortid_generate env m1))), st1)"
      unfolding st1_def by (intro shorten_creates) simp_all
    from a have "js_trim u2 \<notin> set (map originalUrl (urls st1))"
      by (auto simp: look st1_def new_Url_def)
    then have none2: "findOne (by_originalUrl u2) (urls st1) = None"
      by (simp add: look)
    from a have ff: "first_fresh env (urls st1) (generated st1) m2"
      by (simp add: st1_def)
    from a have "shorten env t2 (Some u2) st1 =
        Some (Json 201 (Shortened (js_trim u2) (shortUrl env (js_trim (shortid_generate env m2)))
                          (js_trim (shortid_generate env m2))),
              \<lparr>urls = urls st1 @ [new_Url u2 (shortid_generate env m2) t2], generated = Suc m2\<rparr>)"
      using none2 ff by (intro shorten_creates) simp_all
    then have 2: "shorten env t2 (Some u2) st1 =
        Some (Json 201 (Shortened (js_trim u2) (shortUrl env (js_trim (shortid_generate env m2)))
                          (js_trim (shortid_generate env m2))),
              \<lparr>urls = urls st @ [new_Url u1 (shortid_generate env m1) t1,
                                  new_Url u2 (shortid_generate env m2) t2],
               generated = Suc m2\<rparr>)"
      by (simp add: st1_def)
    from ff have "fresh_at env (urls st1) m2" by (simp add: first_fresh_def)
    then have 3: "js_trim (shortid_generate env m1) \<noteq> js_trim (shortid_generate env m2)"
      by (simp add: fresh_at_def st1_def new_Url_def)
    from 1 show "shorten env t1 (Some u1) st =
        Some (Json 201 (Shortened (js_trim u1) (shortUrl env (js_trim (shortid_generate env m1)))
                          (js_trim (shortid_generate env m1))),
              \<lparr>urls = urls st @ [new_Url u1 (shortid_generate env m1) t1], generated = Suc m1\<rparr>)"
      by (simp add: st1_def)
    from 2 show "shorten env t2 (Some u2)
          \<lparr>urls = urls st @ [new_Url u1 (shortid_generate env m1) t1], generated = Suc m1\<rparr> =
        Some (Json 201 (Shortened (js_trim u2) (shortUrl env (js_trim (shortid_generate env m2)))
                          (js_trim (shortid_generate env m2))),
              \<lparr>urls = urls st @ [new_Url u1 (shortid_generate env m1) t1,
                                  new_Url u2 (shortid_generate env m2) t2],
               generated = Suc m2\<rparr>)"
      by (simp add: st1_def)
    from 3 show "js_trim (shortid_generate env m1) \<noteq> js_trim (shortid_generate env m2)" .
  }
  {
    assume b: "store_ok (urls st) \<and> js_trim u1 = js_trim u2 \<and> u2 \<noteq> [] \<and> isValidUrl env u2 \<and>
      shorten env t1 (Some u1) st = Some (r1, st1) \<and> shortened r1 = Some (o1, c1)"
    then have "shorten env t2 (Some u2) st1 = Some (Json 200 (Shortened o1 (shortUrl env c1) c1), st1) \<and>
      length (filter (by_originalUrl u2) (urls st1)) = 1"
      by (intro shorten_shared [of st u2 env u1 t1 r1 st1 o1 c1 t2]) simp_all
    then show "shorten env t2 (Some u2) st1 = Some (Json 200 (Shortened o1 (shortUrl env c1) c1), st1)"
      "length (filter (by_originalUrl u2) (urls st1)) = 1"
      by simp_all
  }
qed

theorem lookup_by_trimmed_text_witness:
  "shorten local_env 1 (Some ''http://example.com'') empty_state =
     Some (Json 201 (Shortened ''http://example.com'' ''http://localhost:3000/code'' ''code''),
           \<lparr>urls = [\<lparr>originalUrl = ''http://example.com'', shortCode = ''code'', clicks = 0,
                     createdAt = 1, lastAccessed = None\<rparr>],
            generated = 1\<rparr>) \<and>
   shorten local_env 2 (Some ''http://example.com/'')
       \<lparr>urls = [\<lparr>originalUrl = ''http://example.com'', shortCode = ''code'', clicks = 0,
                 createdAt = 1, lastAccessed = None\<rparr>],
        generated = 1\<rparr> =
     Some (Json 201 (Shortened ''http://example.com/'' ''http://localhost:3000/code0'' ''code0''),
           \<lparr>urls = [\<lparr>originalUrl = ''http://example.com'', shortCode = ''code'', clicks = 0,
                     createdAt = 1, lastAccessed = None\<rparr>,
                    \<lparr>originalUrl = ''http://example.com/'', shortCode = ''code0'', clicks = 0,
                     createdAt = 2, lastAccessed = None\<rparr>],
            generated = 2\<rparr>) \<and>
   ''code'' \<noteq> ''code0'' \<and>
   shorten local_env 3 (Some ''http://example.com  '')
       \<lparr>urls = [\<lparr>originalUrl = ''http://example.com'', shortCode = ''code'', clicks = 0,
                 createdAt = 1, lastAccessed = None\<rparr>],
        generated = 1\<rparr> =
     Some (Json 200 (Shortened ''http://example.com'' ''http://localhost:3000/code'' ''code''),
           \<lparr>urls = [\<lparr>originalUrl = ''http://example.com'', shortCode = ''code'', clicks = 0,
                     createdAt = 1, lastAccessed = None\<rparr>],
            generated = 1\<rparr>)"
proof -
  define u1 where "u1 = ''http://example.com''"
  define u2 where "u2 = ''http://example.com/''"
  define u3 where "u3 = ''http://example.com  ''"
  have t: "js_trim u1 = ''http://example.com''" "js_trim u2 = ''http://example.com/''"
    "js_trim u3 = ''http://example.com''"
    unfolding u1_def u2_def u3_def by code_simp+
  have v: "isValidUrl local_env u1" "isValidUrl local_env u2" "isValidUrl local_env u3"
    unfolding u1_def u2_def u3_def by code_simp+
  have g: "shortid_generate local_env 0 = ''code''" "shortid_generate local_env 1 = ''code0''"
    "shortid_generate local_env (Suc 0) = ''code0''"
    by (simp_all add: local_env_def)
  have tg: "js_trim ''code'' = ''code''" "js_trim ''code0'' = ''code0''"
    by code_simp+
  have n: "findOne (by_originalUrl u1) (urls empty_state) = None"
    "findOne (by_originalUrl u2) (urls empty_state) = None"
    by (simp_all add: empty_state_def findOne_def)
  have f1: "first_fresh local_env (urls empty_state) (generated empty_state) 0"
    by (simp add: first_fresh_def fresh_at_def empty_state_def)
  have f2: "first_fresh local_env (urls empty_state @ [new_Url u1 (shortid_generate local_env 0) 1])
      (Suc 0) 1"
    by (simp add: first_fresh_def fresh_at_def empty_state_def new_Url_def g tg)
  from lookup_by_trimmed_text [where ?u1.0 = u1 and ?u2.0 = u2 and env = local_env
      and st = empty_state and ?m1.0 = 0 and ?m2.0 = 1 and ?t1.0 = 1 and ?t2.0 = 2,
      THEN conjunct2, THEN conjunct1] t v n f1 f2 g tg
  have A: "shorten local_env 1 (Some u1) empty_state =
        Some (Json 201 (Shortened ''http://example.com'' (shortUrl local_env ''code'') ''code''),
              \<lparr>urls = urls empty_state @ [new_Url u1 ''code'' 1], generated = Suc 0\<rparr>) \<and>
      shorten local_env 2 (Some u2)
          \<lparr>urls = urls empty_state @ [new_Url u1 ''code'' 1], generated = Suc 0\<rparr> =
        Some (Json 201 (Shortened ''http://example.com/'' (shortUrl local_env ''code0'') ''code0''),
              \<lparr>urls = urls empty_state @ [new_Url u1 ''code'' 1, new_Url u2 ''code0'' 2],
               generated = Suc 1\<rparr>) \<and>
      ''code'' \<noteq> ''code0''"
    by (simp add: u1_def u2_def)
  have ok: "store_ok (urls empty_state)"
    by (simp add: store_ok_def empty_state_def)
  have c: "shortened (Json 201 (Shortened ''http://example.com'' (shortUrl local_env ''code'') ''code''))
      = Some (''http://example.com'', ''code'')"
    by simp
  from lookup_by_trimmed_text [where ?u1.0 = u1 and ?u2.0 = u3 and env = local_env
      and st = empty_state and ?t1.0 = 1 and ?t2.0 = 3
      and ?r1.0 = "Json 201 (Shortened ''http://example.com'' (shortUrl local_env ''code'') ''code'')"
      and ?st1.0 = "\<lparr>urls = urls empty_state @ [new_Url u1 ''code'' 1], generated = Suc 0\<rparr>"
      and ?o1.0 = "''http://example.com''" and ?c1.0 = "''code''",
      THEN conjunct2, THEN conjunct2] ok t v A c
  have B: "shorten local_env 3 (Some u3)
        \<lparr>urls = urls empty_state @ [new_Url u1 ''code'' 1], generated = Suc 0\<rparr> =
      Some (Json 200 (Shortened ''http://example.com'' (shortUrl local_env ''code'') ''code''),
            \<lparr>urls = urls empty_state @ [new_Url u1 ''code'' 1], generated = Suc 0\<rparr>)"
    by (simp add: u3_def)
  have b: "BASE_URL local_env = ''http://localhost:3000''"
    by (simp add: local_env_def)
  from A B show ?thesis
    by (simp add: u1_def u2_def u3_def empty_state_def new_Url_def t [unfolded u1_def u2_def u3_def]
        tg shortUrl_def b)
qed

text \<open>
  The claim as written fails for two valid URLs that differ only by a leading space:
  the second finds the document of the first and gets its code; no second document is
  made.
\<close>

theorem lookup_exact_counterexample:
  "isValidUrl local_env '' http://example.com'' \<and>
   shorten local_env 1 (Some ''http://example.com'') empty_state =
     Some (Json 201 (Shortened ''http://example.com'' ''http://localhost:3000/code'' ''code''),
           \<lparr>urls = [\<lparr>originalUrl = ''http://example.com'', shortCode = ''code'', clicks = 0,
                     createdAt = 1, lastAccessed = None\<rparr>],
            generated = 1\<rparr>) \<and>
   shorten local_env 2 (Some '' http://example.com'')
       \<lparr>urls = [\<lparr>originalUrl = ''http://example.com'', shortCode = ''code'', clicks = 0,
                 createdAt = 1, lastAccessed = None\<rparr>],
        generated = 1\<rparr> =
     Some (Json 200 (Shortened ''http://example.com'' ''http://localhost:3000/code'' ''code''),
           \<lparr>urls = [\<lparr>originalUrl = ''http://example.com'', shortCode = ''code'', clicks = 0,
                     createdAt = 1, lastAccessed = None\<rparr>],
            generated = 1\<rparr>)"
  by code_simp

end
